(* ===== verification/KV_Prelude.thy ===== *)
theory KV_Prelude
  imports Main "HOL-Library.Word" "HOL-Library.Char_ord" "HOL-Library.List_Lexorder" "HOL-Library.AList"
begin

text \<open>
  Shared vocabulary of the development.

  A Go \<open>string\<close> and a Go \<open>[]byte\<close> are both sequences of bytes; a byte is an Isabelle
  \<open>char\<close> (eight bits), so both are modelled by char lists and the conversions
  \<open>[]byte(s)\<close> and \<open>string(b)\<close> are the identity. Go compares strings byte by byte
  (the orders of \<open>Char_ord\<close> and \<open>List_Lexorder\<close>).

  The theory also holds what the sources use of Go's standard library: big-endian encoding
  (\<open>encoding/binary\<close>), decimal formatting (\<open>fmt\<close>), \<open>sort.Search\<close>, \<open>io.ReadFull\<close>, a
  directory of files (\<open>os\<close>), with their laws, and the lemma collections the components use.
\<close>

type_synonym key = string
type_synonym bytes = "char list"

named_theorems kv_defs \<open>definitions of operations that component proofs unfold\<close>
named_theorems kv_inv \<open>invariant preservation facts\<close>

subsection \<open>Options and lists\<close>

lemma option_eqI: "(\<And>x. a = Some x \<longleftrightarrow> b = Some x) \<Longrightarrow> a = b"
  by (cases a; cases b) auto

lemma foldl_snoc: "foldl (\<lambda>acc x. acc @ [x]) acc xs = acc @ xs"
  by (induction xs arbitrary: acc) auto

lemma foldl_map_snoc: "foldl (\<lambda>acc x. acc @ [f x]) acc xs = acc @ map f xs"
  by (induction xs arbitrary: acc) simp_all

lemma foldl_filter_snoc: "foldl (\<lambda>acc x. if P x then acc @ [x] else acc) acc xs = acc @ filter P xs"
  by (induction xs arbitrary: acc) auto

lemma foldl_filter_map_snoc:
  "foldl (\<lambda>acc x. if P x then acc @ [f x] else acc) acc xs = acc @ map f (filter P xs)"
  by (induction xs arbitrary: acc) auto

lemma sorted_le_last: "sorted xs \<Longrightarrow> x \<in> set xs \<Longrightarrow> x \<le> last xs"
  by (induction xs) auto

lemma last_notin_take:
  assumes "distinct xs" "xs \<noteq> []" "0 < n"
  shows "last xs \<notin> set (take (length xs - n) xs)"
proof -
  let ?k = "length xs - n"
  have k: "?k < length xs" using assms by (cases xs) (auto intro: diff_less)
  then have "last (drop ?k xs) \<in> set (drop ?k xs)" by (intro last_in_set) simp
  then have "last xs \<in> set (drop ?k xs)" using k by (simp add: last_drop)
  moreover have "set (take ?k xs) \<inter> set (drop ?k xs) = {}"
    using assms(1) by (simp add: set_take_disj_set_drop_if_distinct)
  ultimately show ?thesis by blast
qed

subsection \<open>Fixed-width integers\<close>

text \<open>The range of Go's \<open>int64\<close>; values of that type are modelled by \<open>int\<close>.\<close>

definition int64_range :: "int \<Rightarrow> bool" where
  "int64_range i \<longleftrightarrow> - (2 ^ 63) \<le> i \<and> i < 2 ^ 63"

text \<open>\<open>encoding/binary\<close>: the \<open>n\<close> low bytes of \<open>v\<close>, most significant first, and back.\<close>

fun be_encode :: "nat \<Rightarrow> nat \<Rightarrow> bytes" where
  "be_encode 0 v = []"
| "be_encode (Suc n) v = char_of ((v div 256 ^ n) mod 256) # be_encode n v"

fun be_decode_acc :: "nat \<Rightarrow> bytes \<Rightarrow> nat" where
  "be_decode_acc a [] = a"
| "be_decode_acc a (c # cs) = be_decode_acc (a * 256 + of_char c) cs"

definition be_decode :: "bytes \<Rightarrow> nat" where
  "be_decode = be_decode_acc 0"

text \<open>\<open>uint64(int64)\<close> and \<open>int64(uint64)\<close>: two's complement at 64 bits.\<close>

definition uint64_of_int64 :: "int \<Rightarrow> nat" where
  "uint64_of_int64 i = unat (word_of_int i :: 64 word)"

definition int64_of_uint64 :: "nat \<Rightarrow> int" where
  "int64_of_uint64 n = sint (word_of_nat n :: 64 word)"

text \<open>\<open>uint32(int)\<close> truncates.\<close>

definition uint32_of :: "nat \<Rightarrow> nat" where
  "uint32_of n = n mod 2 ^ 32"

lemma length_be_encode [simp]: "length (be_encode n v) = n"
  by (induction n) auto

lemma be_decode_acc_append: "be_decode_acc a (xs @ ys) = be_decode_acc (be_decode_acc a xs) ys"
  by (induction xs arbitrary: a) auto

lemma be_decode_acc_encode: "be_decode_acc a (be_encode n v) = a * 256 ^ n + v mod 256 ^ n"
proof (induction n arbitrary: a)
  case 0
  then show ?case by simp
next
  case (Suc n)
  have "v mod 256 ^ Suc n = 256 ^ n * (v div 256 ^ n mod 256) + v mod 256 ^ n"
    using mod_mult2_eq [of v "256 ^ n" 256] by (simp add: mult.commute)
  then show ?case
    using Suc by (simp add: algebra_simps)
qed

lemma be_decode_encode [simp]: "be_decode (be_encode n v) = v mod 256 ^ n"
  by (simp add: be_decode_def be_decode_acc_encode)

lemma int64_roundtrip [simp]: "int64_range i \<Longrightarrow> int64_of_uint64 (uint64_of_int64 i) = i"
  unfolding int64_range_def int64_of_uint64_def uint64_of_int64_def
  by (simp add: sint_sbintrunc' signed_take_bit_int_eq_self)

lemma uint64_of_int64_less [simp]: "uint64_of_int64 i < 256 ^ 8"
proof -
  have "unat (word_of_int i :: 64 word) < 2 ^ 64"
    using unsigned_less [of "word_of_int i :: 64 word", where 'a = nat] by simp
  then show ?thesis by (simp add: uint64_of_int64_def)
qed

lemma uint32_of_id [simp]: "n < 2 ^ 32 \<Longrightarrow> uint32_of n = n"
  by (simp add: uint32_of_def)


text \<open>\<open>hex.EncodeToString\<close>\<close>

definition hex_digit :: "nat \<Rightarrow> char" where
  "hex_digit d = (if d < 10 then char_of (48 + d) else char_of (87 + d))"

definition hex_encode :: "bytes \<Rightarrow> string" where
  "hex_encode bs = concat (map (\<lambda>b. [hex_digit (of_char b div 16), hex_digit (of_char b mod 16)]) bs)"

lemma length_hex_encode: "length (hex_encode bs) = 2 * length bs"
  by (induction bs) (simp_all add: hex_encode_def)

subsection \<open>Decimal formatting\<close>

text \<open>\<open>fmt\<close>'s \<open>%d\<close>, and \<open>%0wd\<close>, which pads with zeros between the sign and the digits.\<close>

definition digit_char :: "nat \<Rightarrow> char" where
  "digit_char d = char_of (48 + d)"

fun dec_digits :: "nat \<Rightarrow> string" where
  "dec_digits n = (if n < 10 then [digit_char n] else dec_digits (n div 10) @ [digit_char (n mod 10)])"

declare dec_digits.simps [simp del]

definition fmt_d :: "int \<Rightarrow> string" where
  "fmt_d i = (if i < 0 then ''-'' else []) @ dec_digits (nat \<bar>i\<bar>)"

definition fmt_0d :: "nat \<Rightarrow> int \<Rightarrow> string" where
  "fmt_0d w i =
     (let sign = (if i < 0 then ''-'' else []); ds = dec_digits (nat \<bar>i\<bar>)
      in sign @ replicate (w - (length sign + length ds)) (CHR ''0'') @ ds)"

text \<open>The digits of \<open>n\<close> at a fixed width, most significant first: the view of
  \<open>%0wd\<close> in which the lexicographic order is read off.\<close>

fun fixed_digits :: "nat \<Rightarrow> nat \<Rightarrow> string" where
  "fixed_digits 0 n = []"
| "fixed_digits (Suc w) n = digit_char (n div 10 ^ w mod 10) # fixed_digits w n"

lemma digit_char_less_iff: "a < 10 \<Longrightarrow> b < 10 \<Longrightarrow> digit_char a < digit_char b \<longleftrightarrow> a < b"
  by (simp add: digit_char_def less_char_def of_char_of)

lemma digit_char_eq_iff: "a < 10 \<Longrightarrow> b < 10 \<Longrightarrow> digit_char a = digit_char b \<longleftrightarrow> a = b"
  using digit_char_less_iff [of a b] digit_char_less_iff [of b a] by fastforce

lemma digit_char_zero: "digit_char 0 = CHR ''0''"
  by code_simp

lemma length_fixed_digits [simp]: "length (fixed_digits w n) = w"
  by (induction w) auto

lemma fixed_digits_snoc: "fixed_digits (Suc w) n = fixed_digits w (n div 10) @ [digit_char (n mod 10)]"
proof (induction w)
  case 0
  then show ?case by simp
next
  case (Suc w)
  have "n div 10 ^ Suc w = n div 10 div 10 ^ w"
    by (simp add: div_mult2_eq)
  with Suc show ?case by simp
qed

lemma fixed_digits_pad:
  "0 < w \<Longrightarrow> n < 10 ^ w \<Longrightarrow>
   length (dec_digits n) \<le> w \<and>
   fixed_digits w n = replicate (w - length (dec_digits n)) (CHR ''0'') @ dec_digits n"
proof (induction w arbitrary: n)
  case 0
  then show ?case by simp
next
  case (Suc w)
  show ?case
  proof (cases "n < 10")
    case True
    have "fixed_digits (Suc w) n = replicate w (CHR ''0'') @ [digit_char n]"
    proof -
      have "fixed_digits w 0 = replicate w (CHR ''0'')"
        by (induction w) (simp_all add: digit_char_zero)
      then show ?thesis
        using True by (simp add: fixed_digits_snoc del: fixed_digits.simps)
    qed
    moreover have "dec_digits n = [digit_char n]"
      using True by (simp add: dec_digits.simps)
    ultimately show ?thesis by simp
  next
    case False
    then have "w \<noteq> 0" using Suc.prems by (cases w) auto
    moreover have "n div 10 < 10 ^ w"
      using Suc.prems by (simp add: div_less_iff_less_mult mult.commute)
    ultimately have IH: "length (dec_digits (n div 10)) \<le> w \<and>
        fixed_digits w (n div 10) =
        replicate (w - length (dec_digits (n div 10))) (CHR ''0'') @ dec_digits (n div 10)"
      using Suc.IH by blast
    have "dec_digits n = dec_digits (n div 10) @ [digit_char (n mod 10)]"
      using False by (subst dec_digits.simps) simp
    then show ?thesis
      using IH by (simp add: fixed_digits_snoc del: fixed_digits.simps)
  qed
qed

lemma fixed_digits_mod: "fixed_digits w (n mod 10 ^ w) = fixed_digits w n"
proof (induction w arbitrary: n)
  case 0
  then show ?case by simp
next
  case (Suc w)
  have "n mod 10 ^ Suc w mod 10 ^ w = n mod 10 ^ w"
    by (simp add: mod_mod_cancel)
  then have "fixed_digits w (n mod 10 ^ Suc w) = fixed_digits w n"
    using Suc [of "n mod 10 ^ Suc w"] Suc [of n] by simp
  moreover have "n mod 10 ^ Suc w div 10 ^ w mod 10 = n div 10 ^ w mod 10"
    using mod_mult2_eq [of n "10 ^ w" 10] by (simp add: mult.commute)
  ultimately show ?case by simp
qed

lemma less_div_mod_iff:
  "(m::nat) < n \<longleftrightarrow> m div p < n div p \<or> m div p = n div p \<and> m mod p < n mod p"
proof (cases "m div p" "n div p" rule: linorder_cases)
  case less
  then have "m < n" using div_le_mono [of n m p] by linarith
  with less show ?thesis by simp
next
  case equal
  have "m = p * (m div p) + m mod p" "n = p * (n div p) + n mod p" by simp_all
  with equal have "m < n \<longleftrightarrow> m mod p < n mod p" by (metis nat_add_left_cancel_less)
  with equal show ?thesis by simp
next
  case greater
  then have "n < m" using div_le_mono [of m n p] by linarith
  with greater show ?thesis by simp
qed

lemma fixed_digits_less_iff:
  "m < 10 ^ w \<Longrightarrow> n < 10 ^ w \<Longrightarrow> fixed_digits w m < fixed_digits w n \<longleftrightarrow> m < n"
proof (induction w arbitrary: m n)
  case 0
  then show ?case by simp
next
  case (Suc w)
  let ?p = "10 ^ w :: nat"
  have dm: "m div ?p < 10" and dn: "n div ?p < 10"
    using Suc.prems by (simp_all add: div_less_iff_less_mult mult.commute)
  have tails: "fixed_digits w m < fixed_digits w n \<longleftrightarrow> m mod ?p < n mod ?p"
    using Suc.IH [of "m mod ?p" "n mod ?p"] by (simp add: fixed_digits_mod)
  show ?case
    using dm dn tails less_div_mod_iff [of m n ?p]
    by (simp add: digit_char_less_iff digit_char_eq_iff)
qed

lemma fmt_0d_fixed: "0 < w \<Longrightarrow> 0 \<le> i \<Longrightarrow> i < 10 ^ w \<Longrightarrow> fmt_0d w i = fixed_digits w (nat i)"
  using fixed_digits_pad [of w "nat i"]
  by (simp add: fmt_0d_def Let_def nat_less_iff)

lemma fmt_0d_less_iff:
  assumes "0 < w" "0 \<le> i" "i < 10 ^ w" "0 \<le> j" "j < 10 ^ w"
  shows "fmt_0d w i < fmt_0d w j \<longleftrightarrow> i < j"
  using assms by (auto simp add: fmt_0d_fixed fixed_digits_less_iff nat_less_iff)

lemma fmt_0d_eq_iff:
  assumes "0 < w" "0 \<le> i" "i < 10 ^ w" "0 \<le> j" "j < 10 ^ w"
  shows "fmt_0d w i = fmt_0d w j \<longleftrightarrow> i = j"
  using fmt_0d_less_iff [OF assms] fmt_0d_less_iff [OF assms(1,4,5,2,3)]
  by (metis less_irrefl linorder_neqE)

subsection \<open>Reading from a stream\<close>

text \<open>
  A reader is the bytes that are left and what follows them: the end of the file or an I/O
  error. \<open>io.ReadFull\<close> returns the wanted bytes, \<open>io.EOF\<close> when nothing could be read,
  \<open>io.ErrUnexpectedEOF\<close> when only some of them could, or the stream's own error.
\<close>

datatype stream_end = AtEOF | ReadFault

datatype read_result = ReadOk bytes bytes | ReadEOF | ReadUnexpectedEOF | ReadError

definition ReadFull :: "stream_end \<Rightarrow> nat \<Rightarrow> bytes \<Rightarrow> read_result" where
  "ReadFull fin n bs =
     (if n \<le> length bs then ReadOk (take n bs) (drop n bs)
      else case fin of ReadFault \<Rightarrow> ReadError
           | AtEOF \<Rightarrow> (if bs = [] then ReadEOF else ReadUnexpectedEOF))"

subsection \<open>sort.Search\<close>

text \<open>Go's binary search for the least index in \<open>[i, j)\<close> where \<open>f\<close> holds.\<close>

function search_loop :: "(nat \<Rightarrow> bool) \<Rightarrow> nat \<Rightarrow> nat \<Rightarrow> nat" where
  "search_loop f i j =
     (if i < j then let h = (i + j) div 2
                    in if \<not> f h then search_loop f (h + 1) j else search_loop f i h
      else i)"
  by pat_completeness auto
termination
  by (relation "measure (\<lambda>(f, i, j). j - i)") auto

declare search_loop.simps [simp del]

definition sort_Search :: "nat \<Rightarrow> (nat \<Rightarrow> bool) \<Rightarrow> nat" where
  "sort_Search n f = search_loop f 0 n"

lemma search_loop_least:
  assumes mono: "\<And>a b. a \<le> b \<Longrightarrow> b < n \<Longrightarrow> f a \<Longrightarrow> f b"
  shows "i \<le> j \<Longrightarrow> j \<le> n \<Longrightarrow> \<forall>k<i. \<not> f k \<Longrightarrow> \<forall>k. j \<le> k \<longrightarrow> k < n \<longrightarrow> f k \<Longrightarrow>
    search_loop f i j \<le> n \<and> (\<forall>k< search_loop f i j. \<not> f k) \<and>
    (\<forall>k. search_loop f i j \<le> k \<longrightarrow> k < n \<longrightarrow> f k)"
proof (induction "j - i" arbitrary: i j rule: less_induct)
  case less
  show ?case
  proof (cases "i < j")
    case False
    then have "search_loop f i j = i" by (simp add: search_loop.simps [of f i j])
    with False less.prems show ?thesis by simp
  next
    case True
    let ?h = "(i + j) div 2"
    have h: "i \<le> ?h" "?h < j" "?h < n" using True less.prems by auto
    show ?thesis
    proof (cases "f ?h")
      case True
      have "\<forall>k. ?h \<le> k \<longrightarrow> k < n \<longrightarrow> f k" using mono True by blast
      with less.hyps [of ?h i] less.prems h True \<open>i < j\<close> show ?thesis
        by (simp add: search_loop.simps [of f i j] Let_def)
    next
      case False
      have "\<forall>k<Suc ?h. \<not> f k" using mono False h by (meson less_Suc_eq_le)
      with less.hyps [of j "Suc ?h"] less.prems h False \<open>i < j\<close> show ?thesis
        by (simp add: search_loop.simps [of f i j] Let_def)
    qed
  qed
qed

lemma sort_Search_least:
  assumes "\<And>a b. a \<le> b \<Longrightarrow> b < n \<Longrightarrow> f a \<Longrightarrow> f b"
  shows "sort_Search n f \<le> n \<and> (\<forall>k< sort_Search n f. \<not> f k) \<and>
    (\<forall>k. sort_Search n f \<le> k \<longrightarrow> k < n \<longrightarrow> f k)"
  using search_loop_least [of n f 0 n] assms by (simp add: sort_Search_def)

end
