(* ===== verification/KV_Config.thy ===== *)
theory KV_Config
  imports KV_Prelude
begin

text \<open>
  \<open>config/config.go\<close>: the node's configuration, its defaults, and the parsing of the
  comma-separated seed list. Durations are nanoseconds, as in Go.
\<close>

definition second_ns :: int where "second_ns = 1000000000"

definition minute_ns :: int where "minute_ns = 60 * second_ns"

definition hour_ns :: int where "hour_ns = 60 * minute_ns"

record Config =
  c_NodeID :: string
  c_ListenGRPC :: string
  c_ListenHTTP :: string
  c_DataDir :: string
  c_SnapshotInterval :: int
  c_SnapshotThreshold :: int
  c_WALMaxSizeBytes :: int
  c_LogLevel :: string
  c_GossipBind :: string
  c_SeedNodes :: string
  c_ReplicationN :: int
  c_ReplicationR :: int
  c_ReplicationW :: int

definition DefaultConfig :: Config where
  "DefaultConfig =
     \<lparr>c_NodeID = ''node-1'',
      c_ListenGRPC = '':50051'',
      c_ListenHTTP = '':8080'',
      c_DataDir = ''./data'',
      c_SnapshotInterval = minute_ns,
      c_SnapshotThreshold = 10000,
      c_WALMaxSizeBytes = 64 * 1024 * 1024,
      c_LogLevel = ''info'',
      c_GossipBind = ''0.0.0.0:7946'',
      c_SeedNodes = [],
      c_ReplicationN = 3,
      c_ReplicationR = 2,
      c_ReplicationW = 2\<rparr>"

text \<open>\<open>strings.Split\<close> at a one-byte separator: always at least one piece.\<close>

fun split_at :: "char \<Rightarrow> string \<Rightarrow> string list" where
  "split_at c [] = [[]]"
| "split_at c (x # xs) =
     (if x = c then [] # split_at c xs
      else case split_at c xs of p # ps \<Rightarrow> (x # p) # ps | [] \<Rightarrow> [[x]])"

text \<open>\<open>strings.TrimSpace\<close>: the UTF-8 encodings of the code points with the Unicode property
  White Space, removed at both ends.\<close>

definition spaces :: "string list" where
  "spaces = map (\<lambda>n. [char_of n]) [9, 10, 11, 12, 13, 32 :: nat] @
     map (map char_of) ([[0xC2, 0x85], [0xC2, 0xA0], [0xE1, 0x9A, 0x80], [0xE2, 0x80, 0xA8],
       [0xE2, 0x80, 0xA9], [0xE2, 0x80, 0xAF], [0xE2, 0x81, 0x9F], [0xE3, 0x80, 0x80]] @
       map (\<lambda>n. [0xE2, 0x80, n]) [0x80 ..< 0x8B])"

definition strip_prefix :: "string list \<Rightarrow> string \<Rightarrow> string option" where
  "strip_prefix ps s =
     (case find (\<lambda>p. p \<noteq> [] \<and> take (length p) s = p) ps of
        None \<Rightarrow> None | Some p \<Rightarrow> Some (drop (length p) s))"

lemma strip_prefix_shorter: "strip_prefix ps s = Some r \<Longrightarrow> length r < length s"
  by (auto simp: strip_prefix_def find_Some_iff split: option.splits)
    (metis diff_less length_greater_0_conv take_eq_Nil)

function trim_left :: "string list \<Rightarrow> string \<Rightarrow> string" where
  "trim_left ps s = (case strip_prefix ps s of None \<Rightarrow> s | Some r \<Rightarrow> trim_left ps r)"
  by pat_completeness auto
termination
  by (relation "measure (\<lambda>(ps, s). length s)") (auto dest: strip_prefix_shorter)

declare trim_left.simps [simp del]

definition TrimSpace :: "string \<Rightarrow> string" where
  "TrimSpace s = rev (trim_left (map rev spaces) (rev (trim_left spaces s)))"

definition SeedNodeList :: "Config \<Rightarrow> string list" where
  "SeedNodeList c =
     (if c_SeedNodes c = [] then []
      else foldl (\<lambda>out s. let s = TrimSpace s in if s \<noteq> [] then out @ [s] else out) []
             (split_at (CHR '','') (c_SeedNodes c)))"

lemma split_at_nonempty: "split_at c s \<noteq> []"
  by (induction s) (auto split: list.splits)

lemma split_at_join:
  "foldr (\<lambda>p acc. p @ acc) (split_at c s) [] = filter (\<lambda>x. x \<noteq> c) s"
  by (induction s) (auto split: list.splits)

lemma foldl_trim_filter:
  "foldl (\<lambda>out s. let s = f s in if s \<noteq> [] then out @ [s] else out) acc xs =
   acc @ filter (\<lambda>s. s \<noteq> []) (map f xs)"
  by (induction xs arbitrary: acc) (auto simp: Let_def)

end
