(* ===== verification/KV_Memtable.thy ===== *)
theory KV_Memtable
  imports KV_Prelude
begin

text \<open>
  \<open>storage/memtable.go\<close>: the sorted in-memory table. The B-tree of
  \<open>github.com/google/btree\<close> is a parameter of the model, a record of the operations the
  table calls; the locale \<open>btree\<close> states their documented behaviour, and the table's own
  lemmas are proved from it. Sorted lists are the reference instance.
\<close>

section \<open>The B-tree the table is built on\<close>

text \<open>
  \<open>bt_Ascend t\<close> and \<open>bt_AscendRange t lo hi\<close> are the items the iterator is called on, in
  order, when it always returns true (the table's iterators do).
\<close>

record ('a, 't) btree_ops =
  bt_NewG :: "nat \<Rightarrow> ('a \<Rightarrow> 'a \<Rightarrow> bool) \<Rightarrow> 't"
  bt_Get :: "'t \<Rightarrow> 'a \<Rightarrow> 'a option"
  bt_ReplaceOrInsert :: "'t \<Rightarrow> 'a \<Rightarrow> 't"
  bt_AscendRange :: "'t \<Rightarrow> 'a \<Rightarrow> 'a \<Rightarrow> 'a list"
  bt_Ascend :: "'t \<Rightarrow> 'a list"

section \<open>Entries and the table\<close>

record Entry =
  e_Key :: key
  e_Value :: bytes
  e_Timestamp :: int
  e_Tombstone :: bool

definition entryLess :: "Entry \<Rightarrow> Entry \<Rightarrow> bool" where
  "entryLess a b \<longleftrightarrow> e_Key a < e_Key b"

text \<open>\<open>size\<close> is an \<open>int64\<close> and \<open>count\<close> an \<open>int\<close> (64 bits on the platforms the store is built
  for): both wrap around, and are read as signed numbers.\<close>

record 't Memtable =
  m_tree :: 't
  m_size :: "64 word"
  m_count :: "64 word"

text \<open>\<open>&Entry{Key: key}\<close>: the other fields are zero.\<close>

definition probe :: "key \<Rightarrow> Entry" where
  "probe k = \<lparr>e_Key = k, e_Value = [], e_Timestamp = 0, e_Tombstone = False\<rparr>"

definition NewMemtable :: "(Entry, 't) btree_ops \<Rightarrow> 't Memtable" where
  "NewMemtable bt = \<lparr>m_tree = bt_NewG bt 32 entryLess, m_size = 0, m_count = 0\<rparr>"

text \<open>The accounting both writers do first for an entry they are about to replace.\<close>

definition discount_existing :: "(Entry, 't) btree_ops \<Rightarrow> key \<Rightarrow> 't Memtable \<Rightarrow> 't Memtable" where
  "discount_existing bt k m =
     (case bt_Get bt (m_tree m) (probe k) of
        Some existing \<Rightarrow>
          m\<lparr>m_size := m_size m - word_of_nat (length (e_Key existing) + length (e_Value existing)),
            m_count := m_count m - 1\<rparr>
      | None \<Rightarrow> m)"

definition Memtable_Put ::
  "(Entry, 't) btree_ops \<Rightarrow> key \<Rightarrow> bytes \<Rightarrow> int \<Rightarrow> 't Memtable \<Rightarrow> 't Memtable" where
  "Memtable_Put bt k v ts m =
     (let m1 = discount_existing bt k m;
          entry = \<lparr>e_Key = k, e_Value = v, e_Timestamp = ts, e_Tombstone = False\<rparr>
      in m1\<lparr>m_tree := bt_ReplaceOrInsert bt (m_tree m1) entry,
            m_size := m_size m1 + word_of_nat (length k + length v),
            m_count := m_count m1 + 1\<rparr>)"

definition Memtable_Delete ::
  "(Entry, 't) btree_ops \<Rightarrow> key \<Rightarrow> int \<Rightarrow> 't Memtable \<Rightarrow> 't Memtable" where
  "Memtable_Delete bt k ts m =
     (let m1 = discount_existing bt k m;
          entry = \<lparr>e_Key = k, e_Value = [], e_Timestamp = ts, e_Tombstone = True\<rparr>
      in m1\<lparr>m_tree := bt_ReplaceOrInsert bt (m_tree m1) entry,
            m_count := m_count m1 + 1\<rparr>)"

definition Memtable_Get :: "(Entry, 't) btree_ops \<Rightarrow> 't Memtable \<Rightarrow> key \<Rightarrow> Entry option" where
  "Memtable_Get bt m k =
     (case bt_Get bt (m_tree m) (probe k) of
        None \<Rightarrow> None
      | Some entry \<Rightarrow> (if e_Tombstone entry then None else Some entry))"

definition Memtable_Scan ::
  "(Entry, 't) btree_ops \<Rightarrow> 't Memtable \<Rightarrow> key \<Rightarrow> key \<Rightarrow> Entry list" where
  "Memtable_Scan bt m start end =
     foldl (\<lambda>results e. if \<not> e_Tombstone e then results @ [e] else results) []
       (bt_AscendRange bt (m_tree m) (probe start) (probe end))"

definition Memtable_All :: "(Entry, 't) btree_ops \<Rightarrow> 't Memtable \<Rightarrow> Entry list" where
  "Memtable_All bt m = foldl (\<lambda>entries e. entries @ [e]) [] (bt_Ascend bt (m_tree m))"

definition Memtable_Size :: "'t Memtable \<Rightarrow> int" where
  "Memtable_Size m = sint (m_size m)"

definition Memtable_Count :: "'t Memtable \<Rightarrow> int" where
  "Memtable_Count m = sint (m_count m)"

section \<open>The contract of the B-tree\<close>

locale btree =
  fixes bt :: "('a, 't) btree_ops"
    and lt :: "'a \<Rightarrow> 'a \<Rightarrow> bool"
    and ok :: "'t \<Rightarrow> bool"
  assumes new_inv: "2 \<le> d \<Longrightarrow> ok (bt_NewG bt d lt)"
    and new_empty: "2 \<le> d \<Longrightarrow> bt_Ascend bt (bt_NewG bt d lt) = []"
    and ascend_sorted: "ok t \<Longrightarrow> sorted_wrt lt (bt_Ascend bt t)"
    and get_item: "ok t \<Longrightarrow> bt_Get bt t x = find (\<lambda>y. \<not> lt x y \<and> \<not> lt y x) (bt_Ascend bt t)"
    and insert_inv: "ok t \<Longrightarrow> ok (bt_ReplaceOrInsert bt t x)"
    and insert_items: "ok t \<Longrightarrow> set (bt_Ascend bt (bt_ReplaceOrInsert bt t x)) =
          insert x {y \<in> set (bt_Ascend bt t). lt x y \<or> lt y x}"
    and range_items: "ok t \<Longrightarrow>
          bt_AscendRange bt t lo hi = filter (\<lambda>y. \<not> lt y lo \<and> lt y hi) (bt_Ascend bt t)"

text \<open>The reference instance: an ordering and the items sorted by it.\<close>

type_synonym 'a slist = "('a \<Rightarrow> 'a \<Rightarrow> bool) \<times> 'a list"

fun slist_insert :: "('a \<Rightarrow> 'a \<Rightarrow> bool) \<Rightarrow> 'a \<Rightarrow> 'a list \<Rightarrow> 'a list" where
  "slist_insert lt x [] = [x]"
| "slist_insert lt x (y # ys) =
     (if lt x y then x # y # ys else if lt y x then y # slist_insert lt x ys else x # ys)"

definition slist_ops :: "('a, 'a slist) btree_ops" where
  "slist_ops =
     \<lparr>bt_NewG = (\<lambda>d lt. (lt, [])),
      bt_Get = (\<lambda>(lt, xs) x. find (\<lambda>y. \<not> lt x y \<and> \<not> lt y x) xs),
      bt_ReplaceOrInsert = (\<lambda>(lt, xs) x. (lt, slist_insert lt x xs)),
      bt_AscendRange = (\<lambda>(lt, xs) lo hi. filter (\<lambda>y. \<not> lt y lo \<and> lt y hi) xs),
      bt_Ascend = (\<lambda>(lt, xs). xs)\<rparr>"

definition slist_inv :: "('a \<Rightarrow> 'a \<Rightarrow> bool) \<Rightarrow> 'a slist \<Rightarrow> bool" where
  "slist_inv lt t \<longleftrightarrow> fst t = lt \<and> sorted_wrt lt (snd t)"

lemma entryLess_probe [simp]:
  "entryLess (probe k) e \<longleftrightarrow> k < e_Key e" "entryLess e (probe k) \<longleftrightarrow> e_Key e < k"
  by (simp_all add: entryLess_def probe_def)

lemma set_slist_insert:
  "sorted_wrt entryLess xs \<Longrightarrow>
   set (slist_insert entryLess x xs) = insert x {y \<in> set xs. entryLess x y \<or> entryLess y x}"
  by (induction xs) (auto simp: entryLess_def)

lemma sorted_slist_insert:
  "sorted_wrt entryLess xs \<Longrightarrow> sorted_wrt entryLess (slist_insert entryLess x xs)"
  by (induction xs) (auto simp: set_slist_insert, auto simp: entryLess_def)

interpretation slist: btree slist_ops entryLess "slist_inv entryLess"
  by unfold_locales
    (auto simp: slist_ops_def slist_inv_def set_slist_insert sorted_slist_insert split: prod.splits)


section \<open>The contract of the table\<close>

text \<open>What an entry does to the abstract table, a map from keys to entries.\<close>

definition mk_entry :: "key \<Rightarrow> bytes \<Rightarrow> int \<Rightarrow> bool \<Rightarrow> Entry" where
  "mk_entry k v ts tomb = \<lparr>e_Key = k, e_Value = v, e_Timestamp = ts, e_Tombstone = tomb\<rparr>"

definition live_lookup :: "(key \<rightharpoonup> Entry) \<Rightarrow> key \<Rightarrow> Entry option" where
  "live_lookup f k = (case f k of None \<Rightarrow> None | Some e \<Rightarrow> if e_Tombstone e then None else Some e)"

text \<open>A list of entries holds a map when it lists its range in key order.\<close>

definition lists_map :: "Entry list \<Rightarrow> (key \<rightharpoonup> Entry) \<Rightarrow> bool" where
  "lists_map es f \<longleftrightarrow> sorted_wrt entryLess es \<and> (\<forall>k e. f k = Some e \<longleftrightarrow> e \<in> set es \<and> e_Key e = k)"

lemma mk_entry_self [simp]:
  "mk_entry (e_Key e) (e_Value e) (e_Timestamp e) (e_Tombstone e) = e"
  by (simp add: mk_entry_def)

lemma mk_entry_sel [simp]:
  "e_Key (mk_entry k v ts b) = k" "e_Value (mk_entry k v ts b) = v"
  "e_Timestamp (mk_entry k v ts b) = ts" "e_Tombstone (mk_entry k v ts b) = b"
  by (simp_all add: mk_entry_def)

lemma find_key_iff:
  "sorted_wrt entryLess es \<Longrightarrow>
   find (\<lambda>e. e_Key e = k) es = Some e \<longleftrightarrow> e \<in> set es \<and> e_Key e = k"
  by (induction es) (auto simp: entryLess_def)

lemma find_lists_map: "lists_map es f \<Longrightarrow> find (\<lambda>e. e_Key e = k) es = f k"
proof (cases "f k")
  case None
  assume "lists_map es f"
  then have "\<forall>e. (f k = Some e) = (e \<in> set es \<and> e_Key e = k)" by (simp add: lists_map_def)
  with None show ?thesis by (auto simp: find_None_iff)
next
  case (Some e)
  assume "lists_map es f"
  then have "sorted_wrt entryLess es" "e \<in> set es \<and> e_Key e = k"
    using Some unfolding lists_map_def by blast+
  with Some show ?thesis by (metis find_key_iff)
qed

lemma sorted_entries_eq:
  assumes "sorted_wrt entryLess es" "sorted_wrt entryLess es'" "set es = set es'"
  shows "es = es'"
  using assms
proof (induction es arbitrary: es')
  case Nil
  then show ?case by simp
next
  case (Cons x xs)
  then obtain y ys where es': "es' = y # ys" by (cases es') auto
  have "x = y"
  proof (rule ccontr)
    assume "x \<noteq> y"
    then have "x \<in> set ys" "y \<in> set xs" using Cons.prems(3) es' by auto
    then have "entryLess y x" "entryLess x y" using Cons.prems(1,2) es' by auto
    then show False by (simp add: entryLess_def)
  qed
  moreover have "x \<notin> set xs" "y \<notin> set ys"
    using Cons.prems(1,2) es' by (auto simp: entryLess_def)
  moreover have "set xs = set ys"
    using Cons.prems(3) es' calculation by (simp add: insert_ident)
  ultimately show ?case using Cons.IH [of ys] Cons.prems es' by simp
qed

lemma lists_map_eq: "lists_map es f \<Longrightarrow> lists_map es' f \<Longrightarrow> es = es'"
  unfolding lists_map_def by (rule sorted_entries_eq) blast+

locale entry_store =
  fixes new :: "'m"
    and put :: "key \<Rightarrow> bytes \<Rightarrow> int \<Rightarrow> 'm \<Rightarrow> 'm"
    and del :: "key \<Rightarrow> int \<Rightarrow> 'm \<Rightarrow> 'm"
    and get :: "'m \<Rightarrow> key \<Rightarrow> Entry option"
    and scan :: "'m \<Rightarrow> key \<Rightarrow> key \<Rightarrow> Entry list"
    and all :: "'m \<Rightarrow> Entry list"
    and abs :: "'m \<Rightarrow> key \<rightharpoonup> Entry"
    and good :: "'m \<Rightarrow> bool"
  assumes good_new: "good new"
    and good_put: "good m \<Longrightarrow> good (put k v ts m)"
    and good_del: "good m \<Longrightarrow> good (del k ts m)"
    and abs_new: "abs new = Map.empty"
    and abs_put: "good m \<Longrightarrow> abs (put k v ts m) = (abs m)(k \<mapsto> mk_entry k v ts False)"
    and abs_del: "good m \<Longrightarrow> abs (del k ts m) = (abs m)(k \<mapsto> mk_entry k [] ts True)"
    and tombstone_empty: "good m \<Longrightarrow> abs m k = Some e \<Longrightarrow> e_Tombstone e \<Longrightarrow> e_Value e = []"
    and get_abs: "good m \<Longrightarrow> get m k = live_lookup (abs m) k"
    and all_abs: "good m \<Longrightarrow> lists_map (all m) (abs m)"
    and scan_all: "good m \<Longrightarrow>
          scan m a b = filter (\<lambda>e. \<not> e_Tombstone e \<and> a \<le> e_Key e \<and> e_Key e < b) (all m)"
begin

lemma get_put: "good m \<Longrightarrow> get (put k v ts m) k' = (if k' = k then Some (mk_entry k v ts False) else get m k')"
  by (simp add: get_abs good_put abs_put live_lookup_def)

lemma get_del: "good m \<Longrightarrow> get (del k ts m) k' = (if k' = k then None else get m k')"
  by (simp add: get_abs good_del abs_del live_lookup_def)

text \<open>Feeding a listing of \<open>f\<close> back, entry by entry, rebuilds \<open>f\<close> on top of \<open>m\<close>.\<close>

definition feed :: "Entry list \<Rightarrow> 'm \<Rightarrow> 'm" where
  "feed es m = foldl (\<lambda>m e. if e_Tombstone e then del (e_Key e) (e_Timestamp e) m
                            else put (e_Key e) (e_Value e) (e_Timestamp e) m) m es"

lemma feed_Nil: "feed [] m = m"
  by (simp add: feed_def)

lemma feed_Cons: "feed (e # es) m =
  feed es (if e_Tombstone e then del (e_Key e) (e_Timestamp e) m
           else put (e_Key e) (e_Value e) (e_Timestamp e) m)"
  by (simp add: feed_def)

lemma good_feed: "good m \<Longrightarrow> good (feed es m)"
  by (induction es arbitrary: m) (auto simp: feed_Nil feed_Cons good_put good_del)

lemma abs_feed:
  "good m \<Longrightarrow> sorted_wrt entryLess es \<Longrightarrow> \<forall>e\<in>set es. e_Tombstone e \<longrightarrow> e_Value e = [] \<Longrightarrow>
   abs (feed es m) k = (case find (\<lambda>e. e_Key e = k) es of Some e \<Rightarrow> Some e | None \<Rightarrow> abs m k)"
proof (induction es arbitrary: m)
  case Nil
  then show ?case by (simp add: feed_Nil)
next
  case (Cons e es)
  let ?m = "if e_Tombstone e then del (e_Key e) (e_Timestamp e) m
            else put (e_Key e) (e_Value e) (e_Timestamp e) m"
  have m: "good ?m" using Cons.prems by (simp add: good_put good_del)
  have e: "abs ?m = (abs m)(e_Key e \<mapsto> e)"
  proof (cases "e_Tombstone e")
    case True
    with Cons.prems mk_entry_self [of e] have s: "mk_entry (e_Key e) [] (e_Timestamp e) True = e" by simp
    with True Cons.prems show ?thesis by (simp add: abs_del s)
  next
    case False
    with mk_entry_self [of e] have s: "mk_entry (e_Key e) (e_Value e) (e_Timestamp e) False = e" by simp
    with False Cons.prems show ?thesis by (simp add: abs_put s)
  qed
  have fresh: "find (\<lambda>x. e_Key x = e_Key e) es = None"
    using Cons.prems by (auto simp: find_None_iff entryLess_def)
  define m' where "m' = ?m"
  have "abs (feed es m') k = (case find (\<lambda>e. e_Key e = k) es of Some e \<Rightarrow> Some e | None \<Rightarrow> abs m' k)"
    using Cons.IH [of m'] m Cons.prems by (simp add: m'_def)
  moreover have "abs m' = (abs m)(e_Key e \<mapsto> e)" using e by (simp only: m'_def)
  moreover have "feed (e # es) m = feed es m'" by (simp only: feed_Cons m'_def)
  ultimately show ?case
    using fresh by (auto split: option.splits)
qed

lemma abs_feed_lists:
  assumes l: "lists_map es f" and t: "\<And>k e. f k = Some e \<Longrightarrow> e_Tombstone e \<Longrightarrow> e_Value e = []"
  shows "abs (feed es new) = f"
proof
  fix k
  have "\<forall>e\<in>set es. e_Tombstone e \<longrightarrow> e_Value e = []"
    using l t unfolding lists_map_def by blast
  moreover have "sorted_wrt entryLess es" using l by (simp add: lists_map_def)
  ultimately show "abs (feed es new) k = f k"
    by (simp add: abs_feed [OF good_new] abs_new find_lists_map [OF l] split: option.split)
qed

lemma all_eq: "good m \<Longrightarrow> good m' \<Longrightarrow> abs m = abs m' \<Longrightarrow> all m = all m'"
  using all_abs [of m] all_abs [of m'] lists_map_eq by simp

lemma abs_feed_all: "good m \<Longrightarrow> abs (feed (all m) new) = abs m"
  using abs_feed_lists [OF all_abs] tombstone_empty by blast

end


section \<open>The table keeps its contract\<close>

text \<open>The abstract table, and the invariant: a valid tree, an entry count that is exact up to
  wrap-around, no data in tombstones.\<close>

definition mt_map :: "(Entry, 't) btree_ops \<Rightarrow> 't Memtable \<Rightarrow> key \<rightharpoonup> Entry" where
  "mt_map bt m k = find (\<lambda>e. e_Key e = k) (bt_Ascend bt (m_tree m))"

definition mt_ok :: "(Entry, 't) btree_ops \<Rightarrow> ('t \<Rightarrow> bool) \<Rightarrow> 't Memtable \<Rightarrow> bool" where
  "mt_ok bt ok m \<longleftrightarrow> ok (m_tree m) \<and> m_count m = word_of_nat (length (bt_Ascend bt (m_tree m))) \<and>
     (\<forall>e\<in>set (bt_Ascend bt (m_tree m)). e_Tombstone e \<longrightarrow> e_Value e = [])"

text \<open>The bytes of the live entries, which \<open>m.size\<close> is meant to count.\<close>

definition weight :: "Entry \<Rightarrow> int" where
  "weight e = (if e_Tombstone e then 0 else int (length (e_Key e) + length (e_Value e)))"

definition live_bytes :: "(Entry, 't) btree_ops \<Rightarrow> 't Memtable \<Rightarrow> int" where
  "live_bytes bt m = sum_list (map weight (bt_Ascend bt (m_tree m)))"

lemma sorted_entries_distinct: "sorted_wrt entryLess es \<Longrightarrow> distinct es"
  by (induction es) (auto simp: entryLess_def)

lemma sorted_entries_inj: "sorted_wrt entryLess es \<Longrightarrow> inj_on e_Key (set es)"
proof (induction es)
  case (Cons a es)
  then have "\<forall>x\<in>set es. e_Key x \<noteq> e_Key a" by (force simp: entryLess_def)
  then have "e_Key a \<notin> e_Key ` (set es - {a})" by (metis Diff_iff imageE)
  with Cons show ?case by simp
qed simp

locale entry_tree = btree bt entryLess ok
  for bt :: "(Entry, 't) btree_ops" and ok :: "'t \<Rightarrow> bool"
begin

abbreviation items :: "'t \<Rightarrow> Entry list" where
  "items t \<equiv> bt_Ascend bt t"

lemma get_probe: "ok t \<Longrightarrow> bt_Get bt t (probe k) = find (\<lambda>e. e_Key e = k) (items t)"
proof -
  have "(\<lambda>y. \<not> entryLess (probe k) y \<and> \<not> entryLess y (probe k)) = (\<lambda>e. e_Key e = k)"
    by (auto simp: fun_eq_iff)
  then show "ok t \<Longrightarrow> ?thesis" by (simp add: get_item)
qed

lemma mt_map_iff: "ok (m_tree m) \<Longrightarrow> mt_map bt m k = Some e \<longleftrightarrow> e \<in> set (items (m_tree m)) \<and> e_Key e = k"
  by (simp add: mt_map_def find_key_iff ascend_sorted)

lemma items_insert:
  "ok t \<Longrightarrow> set (items (bt_ReplaceOrInsert bt t x)) = insert x {y \<in> set (items t). e_Key y \<noteq> e_Key x}"
  by (auto simp: insert_items entryLess_def)

lemma find_insert:
  assumes "ok t"
  shows "find (\<lambda>e. e_Key e = k) (items (bt_ReplaceOrInsert bt t x)) =
    (if k = e_Key x then Some x else find (\<lambda>e. e_Key e = k) (items t))" (is "?l = ?r")
proof (rule option_eqI)
  fix e
  show "?l = Some e \<longleftrightarrow> ?r = Some e"
    using assms by (auto simp: find_key_iff ascend_sorted insert_inv items_insert)
qed

text \<open>Sums over the items change in one place.\<close>

lemma sum_items_insert:
  fixes f :: "Entry \<Rightarrow> int"
  assumes "ok t"
  shows "sum_list (map f (items (bt_ReplaceOrInsert bt t x))) =
    sum_list (map f (items t)) + f x -
    (case find (\<lambda>e. e_Key e = e_Key x) (items t) of None \<Rightarrow> 0 | Some e \<Rightarrow> f e)"
proof -
  let ?S = "set (items t)" and ?R = "{y \<in> set (items t). e_Key y \<noteq> e_Key x}"
  have s: "sorted_wrt entryLess (items t)" and s': "sorted_wrt entryLess (items (bt_ReplaceOrInsert bt t x))"
    using assms by (simp_all add: ascend_sorted insert_inv)
  have "sum_list (map f (items (bt_ReplaceOrInsert bt t x))) = sum f (insert x ?R)"
    using assms s' by (simp add: sum_list_distinct_conv_sum_set sorted_entries_distinct items_insert)
  also have "\<dots> = f x + sum f ?R" by simp
  also have "sum f ?R = sum f ?S - (case find (\<lambda>e. e_Key e = e_Key x) (items t) of None \<Rightarrow> 0 | Some e \<Rightarrow> f e)"
  proof (cases "find (\<lambda>e. e_Key e = e_Key x) (items t)")
    case None
    then have "?R = ?S" by (auto simp: find_None_iff)
    with None show ?thesis by simp
  next
    case (Some e)
    then have e: "e \<in> ?S" "e_Key e = e_Key x" using s by (simp_all add: find_key_iff)
    then have "?R = ?S - {e}"
      using sorted_entries_inj [OF s] by (auto simp: inj_on_def)
    with e Some show ?thesis by (simp add: sum_diff1)
  qed
  finally show ?thesis
    using s by (simp add: sum_list_distinct_conv_sum_set sorted_entries_distinct)
qed

lemma length_items_insert:
  assumes "ok t"
  shows "int (length (items (bt_ReplaceOrInsert bt t x))) = int (length (items t)) + 1 -
    (case find (\<lambda>e. e_Key e = e_Key x) (items t) of None \<Rightarrow> 0 | Some e \<Rightarrow> 1)"
  using sum_items_insert [OF assms, of "\<lambda>_. 1" x] by (simp add: sum_list_triv)

lemma discount_sel:
  "ok (m_tree m) \<Longrightarrow> m_tree (discount_existing bt k m) = m_tree m"
  "ok (m_tree m) \<Longrightarrow> m_count (discount_existing bt k m) =
     m_count m - (case mt_map bt m k of None \<Rightarrow> 0 | Some e \<Rightarrow> 1)"
  "ok (m_tree m) \<Longrightarrow> m_size (discount_existing bt k m) =
     m_size m - word_of_int (case mt_map bt m k of None \<Rightarrow> 0 | Some e \<Rightarrow> int (length (e_Key e) + length (e_Value e)))"
  by (simp_all add: discount_existing_def get_probe mt_map_def split: option.split)

text \<open>The same in the width of the counter.\<close>

lemma count_items_insert:
  assumes "ok t"
  shows "(word_of_nat (length (items (bt_ReplaceOrInsert bt t x))) :: 64 word) = word_of_nat (length (items t)) + 1 -
    (case find (\<lambda>e. e_Key e = e_Key x) (items t) of None \<Rightarrow> 0 | Some e \<Rightarrow> 1)"
  using arg_cong [OF length_items_insert [OF assms, of x], of word_of_int] by (simp split: option.splits)

lemma mt_map_sorted: "ok (m_tree m) \<Longrightarrow> lists_map (items (m_tree m)) (mt_map bt m)"
  by (simp add: lists_map_def ascend_sorted mt_map_iff)

lemma put_ok: "mt_ok bt ok m \<Longrightarrow> mt_ok bt ok (Memtable_Put bt k v ts m)"
  by (auto simp: mt_ok_def Memtable_Put_def Let_def discount_sel insert_inv count_items_insert
      mt_map_def items_insert split: option.split)

lemma delete_ok: "mt_ok bt ok m \<Longrightarrow> mt_ok bt ok (Memtable_Delete bt k ts m)"
  by (auto simp: mt_ok_def Memtable_Delete_def Let_def discount_sel insert_inv count_items_insert
      mt_map_def items_insert split: option.split)

end

sublocale entry_tree \<subseteq> table: entry_store "NewMemtable bt" "Memtable_Put bt" "Memtable_Delete bt"
  "Memtable_Get bt" "Memtable_Scan bt" "Memtable_All bt" "mt_map bt" "mt_ok bt ok"
proof (unfold_locales, goal_cases)
  case 1
  show ?case by (simp add: mt_ok_def NewMemtable_def new_inv new_empty)
next
  case (2 m k v ts)
  then show ?case by (rule put_ok)
next
  case (3 m k ts)
  then show ?case by (rule delete_ok)
next
  case 4
  show ?case by (simp add: fun_eq_iff mt_map_def NewMemtable_def new_empty)
next
  case (5 m k v ts)
  then show ?case
    by (simp add: fun_eq_iff mt_ok_def mt_map_def Memtable_Put_def Let_def discount_sel find_insert mk_entry_def)
next
  case (6 m k ts)
  then show ?case
    by (simp add: fun_eq_iff mt_ok_def mt_map_def Memtable_Delete_def Let_def discount_sel find_insert mk_entry_def)
next
  case (7 m k e)
  then show ?case by (auto simp: mt_ok_def mt_map_iff)
next
  case (8 m k)
  then show ?case by (simp add: mt_ok_def Memtable_Get_def live_lookup_def get_probe mt_map_def)
next
  case (9 m)
  then show ?case by (simp add: mt_ok_def Memtable_All_def foldl_snoc mt_map_sorted)
next
  case (10 m a b)
  then show ?case
    by (simp add: mt_ok_def Memtable_Scan_def Memtable_All_def foldl_snoc foldl_filter_snoc range_items
        linorder_not_less conj_commute cong: conj_cong)
qed


interpretation slist: entry_tree slist_ops "slist_inv entryLess"
  by (rule entry_tree.intro) (rule slist.btree_axioms)

end
