(* ===== verification/KV_Wal.thy ===== *)
theory KV_Wal
  imports KV_Prelude
begin

text \<open>
  \<open>storage/wal.go\<close>: the write-ahead log, its binary records, appending with rotation, and
  replay. Files of the data directory are an association list from file names to contents.
  What the operating system answers (a failing close, rename, open or sync, a write that
  stops after some bytes, a read error) is an argument of each operation.
\<close>

type_synonym 'c dir = "(string \<times> 'c) list"

section \<open>Records\<close>

type_synonym OpType = "8 word"

definition OpTypePut :: OpType where "OpTypePut = 1"

definition OpTypeDelete :: OpType where "OpTypeDelete = 2"

definition recordHeaderSize :: nat where "recordHeaderSize = 17"

record LogEntry =
  l_Timestamp :: int
  l_Key :: key
  l_Value :: bytes
  l_OpType :: OpType
  l_Offset :: int

text \<open>The buffer \<open>Append\<close> builds: \<open>binary.Write\<close> of the fixed-size fields, then the key and
  the value. \<open>uint32(len(..))\<close> truncates.\<close>

definition encode_header :: "LogEntry \<Rightarrow> bytes" where
  "encode_header e =
     be_encode 8 (uint64_of_int64 (l_Timestamp e)) @
     be_encode 4 (uint32_of (length (l_Key e))) @
     be_encode 4 (uint32_of (length (l_Value e))) @
     [char_of (unat (l_OpType e))]"

definition encode_record :: "LogEntry \<Rightarrow> bytes" where
  "encode_record e = encode_header e @ l_Key e @ l_Value e"

section \<open>The log\<close>

datatype wal_error =
    ErrOpenWal | ErrStatWal
  | ErrCloseForRotation | ErrRenameWal | ErrOpenNewWal | ErrWalWrite | ErrWalSync | ErrWalClose
  | ErrOpenReplay | ErrSeekWal | ErrReadHeader int | ErrReadPayload int

text \<open>\<open>w_open\<close>: whether the handle \<open>w.file\<close> is still open; it always refers to the file named
  \<open>w_path\<close>.\<close>

record WAL =
  w_path :: string
  w_open :: bool
  w_size :: int
  w_maxSize :: int

record os_env =
  os_now :: int
  os_open_ok :: bool
  os_stat_ok :: bool
  os_close_ok :: bool
  os_rename_ok :: bool
  os_sync_ok :: bool
  os_seek_ok :: bool
  os_write_stop :: "nat option"
  os_read_end :: stream_end

text \<open>\<open>os.OpenFile\<close> with \<open>O_CREATE|O_APPEND\<close>, and appending through such a handle.\<close>

definition open_create :: "string \<Rightarrow> bytes dir \<Rightarrow> bytes dir" where
  "open_create p fs = (case map_of fs p of None \<Rightarrow> AList.update p [] fs | Some _ \<Rightarrow> fs)"

definition append_file :: "string \<Rightarrow> bytes \<Rightarrow> bytes dir \<Rightarrow> bytes dir" where
  "append_file p bs fs =
     (case map_of fs p of None \<Rightarrow> AList.update p bs fs | Some c \<Rightarrow> AList.update p (c @ bs) fs)"

definition OpenWAL :: "os_env \<Rightarrow> string \<Rightarrow> int \<Rightarrow> bytes dir \<Rightarrow> (wal_error + WAL) \<times> bytes dir" where
  "OpenWAL os path maxSizeBytes fs =
     (if \<not> os_open_ok os then (Inl ErrOpenWal, fs)
      else let fs1 = open_create path fs
           in if \<not> os_stat_ok os then (Inl ErrStatWal, fs1)
              else (Inr \<lparr>w_path = path, w_open = True,
                         w_size = (case map_of fs1 path of Some c \<Rightarrow> int (length c) | None \<Rightarrow> 0),
                         w_maxSize = maxSizeBytes\<rparr>, fs1))"

definition rotated_name :: "int \<Rightarrow> string" where
  "rotated_name now = ''wal-'' @ fmt_d now @ ''.log''"

definition rotateIfNeeded :: "os_env \<Rightarrow> WAL \<Rightarrow> bytes dir \<Rightarrow> wal_error option \<times> WAL \<times> bytes dir" where
  "rotateIfNeeded os w fs =
     (if w_size w < w_maxSize w then (None, w, fs)
      else if \<not> (w_open w \<and> os_close_ok os) then (Some ErrCloseForRotation, w\<lparr>w_open := False\<rparr>, fs)
      else let w1 = w\<lparr>w_open := False\<rparr>
           in case map_of fs (w_path w) of
                None \<Rightarrow> (Some ErrRenameWal, w1, fs)
              | Some c \<Rightarrow>
                  if \<not> os_rename_ok os then (Some ErrRenameWal, w1, fs)
                  else let fs1 = AList.update (rotated_name (os_now os)) c (AList.delete (w_path w) fs)
                       in if \<not> os_open_ok os then (Some ErrOpenNewWal, w1, fs1)
                          else (None, w\<lparr>w_open := True, w_size := 0\<rparr>, open_create (w_path w) fs1))"

definition WAL_Append :: "os_env \<Rightarrow> WAL \<Rightarrow> LogEntry \<Rightarrow> bytes dir \<Rightarrow> wal_error option \<times> WAL \<times> bytes dir" where
  "WAL_Append os w entry fs =
     (case rotateIfNeeded os w fs of
        (Some err, w1, fs1) \<Rightarrow> (Some err, w1, fs1)
      | (None, w1, fs1) \<Rightarrow>
          let buf = encode_record entry
          in if \<not> w_open w1 then (Some ErrWalWrite, w1, fs1)
             else case os_write_stop os of
               Some n \<Rightarrow> (Some ErrWalWrite, w1, append_file (w_path w1) (take n buf) fs1)
             | None \<Rightarrow>
                 let w2 = w1\<lparr>w_size := w_size w1 + int (length buf)\<rparr>;
                     fs2 = append_file (w_path w1) buf fs1
                 in (if os_sync_ok os then None else Some ErrWalSync, w2, fs2))"

definition WAL_Size :: "WAL \<Rightarrow> int" where
  "WAL_Size w = w_size w"

definition WAL_Close :: "os_env \<Rightarrow> WAL \<Rightarrow> wal_error option \<times> WAL" where
  "WAL_Close os w =
     (if \<not> (w_open w \<and> os_sync_ok os) then (Some ErrWalSync, w)
      else (if os_close_ok os then None else Some ErrWalClose, w\<lparr>w_open := False\<rparr>))"

section \<open>Replay\<close>

lemma ReadFull_ReadOk:
  "ReadFull fin n bs = ReadOk a b \<Longrightarrow> n \<le> length bs \<and> a = take n bs \<and> b = drop n bs"
  by (auto simp: ReadFull_def split: if_splits stream_end.splits)

function replay_loop :: "stream_end \<Rightarrow> bytes \<Rightarrow> int \<Rightarrow> LogEntry list \<Rightarrow> wal_error + LogEntry list" where
  "replay_loop fin bs offset entries =
     (case ReadFull fin recordHeaderSize bs of
        ReadEOF \<Rightarrow> Inr entries
      | ReadUnexpectedEOF \<Rightarrow> Inr entries
      | ReadError \<Rightarrow> Inl (ErrReadHeader offset)
      | ReadOk header rest \<Rightarrow>
          let timestamp = int64_of_uint64 (be_decode (take 8 header));
              keyLen = be_decode (take 4 (drop 8 header));
              valueLen = be_decode (take 4 (drop 12 header));
              opType = word_of_nat (of_char (header ! 16))
          in case ReadFull fin (keyLen + valueLen) rest of
               ReadUnexpectedEOF \<Rightarrow> Inr entries
             | ReadEOF \<Rightarrow> Inl (ErrReadPayload offset)
             | ReadError \<Rightarrow> Inl (ErrReadPayload offset)
             | ReadOk payload rest' \<Rightarrow>
                 replay_loop fin rest'
                   (offset + int recordHeaderSize + int keyLen + int valueLen)
                   (entries @ [\<lparr>l_Timestamp = timestamp, l_Key = take keyLen payload,
                                l_Value = drop keyLen payload, l_OpType = opType,
                                l_Offset = offset\<rparr>]))"
  by pat_completeness auto
termination
  by (relation "measure (\<lambda>(fin, bs, offset, entries). length bs)")
    (auto dest!: ReadFull_ReadOk simp: recordHeaderSize_def)

declare replay_loop.simps [simp del]

definition WAL_Replay :: "os_env \<Rightarrow> WAL \<Rightarrow> int \<Rightarrow> bytes dir \<Rightarrow> wal_error + LogEntry list" where
  "WAL_Replay os w byteOffset fs =
     (case map_of fs (w_path w) of
        None \<Rightarrow> Inr []
      | Some c \<Rightarrow>
          if \<not> os_open_ok os then Inl ErrOpenReplay
          else if 0 < byteOffset \<and> \<not> os_seek_ok os then Inl ErrSeekWal
          else replay_loop (os_read_end os) (if 0 < byteOffset then drop (nat byteOffset) c else c)
                 byteOffset [])"

section \<open>Encoding and decoding\<close>

text \<open>Entries a record can hold: an \<open>int64\<close> timestamp, lengths that fit \<open>uint32\<close>.\<close>

definition wf_entry :: "LogEntry \<Rightarrow> bool" where
  "wf_entry e \<longleftrightarrow> int64_range (l_Timestamp e) \<and> length (l_Key e) < 2 ^ 32 \<and> length (l_Value e) < 2 ^ 32"

fun with_offsets :: "int \<Rightarrow> LogEntry list \<Rightarrow> LogEntry list" where
  "with_offsets off [] = []"
| "with_offsets off (e # es) =
     e\<lparr>l_Offset := off\<rparr> # with_offsets (off + int (length (encode_record e))) es"

definition encode_log :: "LogEntry list \<Rightarrow> bytes" where
  "encode_log es = concat (map encode_record es)"

lemma length_encode_header [simp]: "length (encode_header e) = 17"
  by (simp add: encode_header_def)

lemma length_encode_record: "length (encode_record e) = 17 + length (l_Key e) + length (l_Value e)"
  by (simp add: encode_record_def)

lemma header_fields:
  assumes "wf_entry e"
  shows "int64_of_uint64 (be_decode (take 8 (encode_header e))) = l_Timestamp e"
    and "be_decode (take 4 (drop 8 (encode_header e))) = length (l_Key e)"
    and "be_decode (take 4 (drop 12 (encode_header e))) = length (l_Value e)"
    and "word_of_nat (of_char (encode_header e ! 16)) = l_OpType e"
proof -
  have op: "unat (l_OpType e) < 256"
    using unsigned_less [of "l_OpType e", where 'a = nat] by simp
  show "int64_of_uint64 (be_decode (take 8 (encode_header e))) = l_Timestamp e"
    using assms uint64_of_int64_less [of "l_Timestamp e"]
    by (simp add: encode_header_def wf_entry_def del: uint64_of_int64_less)
  show "be_decode (take 4 (drop 8 (encode_header e))) = length (l_Key e)"
    using assms by (simp add: encode_header_def wf_entry_def)
  show "be_decode (take 4 (drop 12 (encode_header e))) = length (l_Value e)"
    using assms by (simp add: encode_header_def wf_entry_def)
  show "word_of_nat (of_char (encode_header e ! 16)) = l_OpType e"
    using op by (simp add: encode_header_def nth_append of_char_of)
qed

lemma replay_loop_record:
  assumes "wf_entry e"
  shows "replay_loop fin (encode_record e @ rest) off acc =
    replay_loop fin rest (off + int (length (encode_record e))) (acc @ [e\<lparr>l_Offset := off\<rparr>])"
proof -
  have h: "ReadFull fin 17 (encode_record e @ rest) =
      ReadOk (encode_header e) (l_Key e @ l_Value e @ rest)"
    by (simp add: ReadFull_def encode_record_def)
  have p: "ReadFull fin (length (l_Key e) + length (l_Value e)) (l_Key e @ l_Value e @ rest) =
      ReadOk (l_Key e @ l_Value e) rest"
    by (simp add: ReadFull_def)
  have r: "\<lparr>l_Timestamp = l_Timestamp e, l_Key = l_Key e, l_Value = l_Value e, l_OpType = l_OpType e,
      l_Offset = off\<rparr> = e\<lparr>l_Offset := off\<rparr>"
    by simp
  show ?thesis
    by (subst replay_loop.simps)
      (simp add: h p r header_fields [OF assms] Let_def length_encode_record recordHeaderSize_def add.assoc)
qed


lemma encode_log_simps [simp]:
  "encode_log [] = []" "encode_log (e # es) = encode_record e @ encode_log es"
  "encode_log (es @ es') = encode_log es @ encode_log es'"
  by (simp_all add: encode_log_def)

lemma with_offsets_append:
  "with_offsets off (es @ es') = with_offsets off es @ with_offsets (off + int (length (encode_log es))) es'"
  by (induction es arbitrary: off) (simp_all add: add.assoc)

lemma replay_loop_log:
  "\<forall>e\<in>set es. wf_entry e \<Longrightarrow>
   replay_loop fin (encode_log es @ rest) off acc =
   replay_loop fin rest (off + int (length (encode_log es))) (acc @ with_offsets off es)"
  by (induction es arbitrary: off acc) (simp_all add: replay_loop_record add.assoc)

lemma replay_loop_end: "replay_loop AtEOF [] off acc = Inr acc"
  by (subst replay_loop.simps) (simp add: ReadFull_def recordHeaderSize_def)

text \<open>A record cut short: the loop stops in front of it, but when the cut falls exactly between
  the header and a non-empty payload, where \<open>io.ReadFull\<close> reads nothing and reports
  \<open>io.EOF\<close>, replay fails.\<close>

lemma replay_loop_torn:
  assumes "wf_entry e" and "n < length (encode_record e)"
  shows "replay_loop AtEOF (take n (encode_record e)) off acc =
    (if n = 17 then Inl (ErrReadPayload off) else Inr acc)"
proof (cases "n < 17")
  case True
  then have "ReadFull AtEOF 17 (take n (encode_record e)) \<in> {ReadEOF, ReadUnexpectedEOF}"
    by (auto simp: ReadFull_def length_encode_record)
  with True show ?thesis
    by (subst replay_loop.simps) (auto simp: recordHeaderSize_def)
next
  case False
  let ?k = "l_Key e" and ?v = "l_Value e"
  have h: "ReadFull AtEOF 17 (take n (encode_record e)) = ReadOk (encode_header e) (take (n - 17) (?k @ ?v))"
    using False by (simp add: ReadFull_def length_encode_record encode_record_def)
  have p: "ReadFull AtEOF (length ?k + length ?v) (take (n - 17) (?k @ ?v)) =
      (if n = 17 then ReadEOF else ReadUnexpectedEOF)"
    using False assms(2) by (auto simp: ReadFull_def length_encode_record simp del: take_append)
  show ?thesis
    by (subst replay_loop.simps)
      (simp add: h p header_fields [OF assms(1)] Let_def recordHeaderSize_def del: take_append)
qed

lemma replay_log: "\<forall>e\<in>set es. wf_entry e \<Longrightarrow> replay_loop AtEOF (encode_log es) off [] = Inr (with_offsets off es)"
  using replay_loop_log [of es AtEOF "[]" off "[]"] by (simp add: replay_loop_end)

section \<open>Appending\<close>

text \<open>The handle's view of \<open>wal.log\<close>: while it is open, \<open>w.size\<close> is the length of the file.\<close>

definition wal_ok :: "WAL \<Rightarrow> bytes dir \<Rightarrow> bool" where
  "wal_ok w fs \<longleftrightarrow> w_path w = ''wal.log'' \<and>
     (w_open w \<longrightarrow> (\<exists>c. map_of fs (w_path w) = Some c \<and> w_size w = int (length c)))"

lemma map_of_append_file:
  "map_of (append_file p bs fs) = (map_of fs)(p \<mapsto> (case map_of fs p of None \<Rightarrow> bs | Some c \<Rightarrow> c @ bs))"
  by (simp add: append_file_def AList.update_conv' split: option.split)

lemma map_of_open_create:
  "map_of (open_create p fs) = (map_of fs)(p \<mapsto> (case map_of fs p of None \<Rightarrow> [] | Some c \<Rightarrow> c))"
  by (simp add: open_create_def AList.update_conv' fun_eq_iff split: option.split)


lemma rotated_name_neq [simp]: "rotated_name now \<noteq> ''wal.log''" "''wal.log'' \<noteq> rotated_name now"
  by (simp_all add: rotated_name_def)

lemma rotate_not_needed: "w_size w < w_maxSize w \<Longrightarrow> rotateIfNeeded os w fs = (None, w, fs)"
  by (simp add: rotateIfNeeded_def)

text \<open>Rotation that succeeds archives the old contents and starts an empty file.\<close>

lemma rotate_success:
  assumes "w_maxSize w \<le> w_size w" "rotateIfNeeded os w fs = (None, w', fs')"
    and "w_path w \<noteq> rotated_name (os_now os)"
  shows "w' = w\<lparr>w_size := 0\<rparr> \<and> w_open w \<and> (\<exists>c. map_of fs (w_path w) = Some c \<and>
    map_of fs' = (map_of fs)(rotated_name (os_now os) \<mapsto> c, w_path w \<mapsto> []))"
  using assms
  by (auto simp: rotateIfNeeded_def Let_def map_of_open_create AList.update_conv' AList.delete_conv'
      fun_eq_iff split: if_splits option.splits)

lemma rotate_wal_ok: "wal_ok w fs \<Longrightarrow> rotateIfNeeded os w fs = (r, w', fs') \<Longrightarrow> wal_ok w' fs'"
  by (auto simp: rotateIfNeeded_def wal_ok_def Let_def map_of_open_create AList.update_conv'
      AList.delete_conv' split: if_splits option.splits)

lemma append_wal_ok:
  assumes "wal_ok w fs" "WAL_Append os w e fs = (r, w', fs')" "os_write_stop os \<in> {None, Some 0}"
  shows "wal_ok w' fs'"
proof -
  obtain r1 w1 fs1 where rot: "rotateIfNeeded os w fs = (r1, w1, fs1)"
    by (metis prod_cases3)
  have ok1: "wal_ok w1 fs1" by (rule rotate_wal_ok [OF assms(1) rot])
  show ?thesis
    using assms(2,3) ok1 rot
    by (auto simp: WAL_Append_def Let_def wal_ok_def map_of_append_file
        split: option.splits if_splits)
qed

lemma append_in_place:
  assumes "WAL_Append os w e fs = (None, w', fs')" "w_size w < w_maxSize w"
  shows "w_open w \<and> w' = w\<lparr>w_size := w_size w + int (length (encode_record e))\<rparr> \<and>
    fs' = append_file (w_path w) (encode_record e) fs"
  using assms by (auto simp: WAL_Append_def rotate_not_needed Let_def split: option.splits if_splits)

section \<open>The contract of the log\<close>

text \<open>The file holds exactly these entries, and the handle is in step with it.\<close>

definition wal_holds :: "WAL \<Rightarrow> bytes dir \<Rightarrow> LogEntry list \<Rightarrow> bool" where
  "wal_holds w fs es \<longleftrightarrow> w_path w = ''wal.log'' \<and> w_open w \<and> map_of fs (w_path w) = Some (encode_log es) \<and>
     w_size w = int (length (encode_log es)) \<and> (\<forall>e\<in>set es. wf_entry e)"

definition log_end :: "LogEntry list \<Rightarrow> int" where
  "log_end es = int (length (encode_log es))"

definition wal_room :: "WAL \<Rightarrow> bool" where
  "wal_room w \<longleftrightarrow> w_size w < w_maxSize w"

text \<open>A system that answers every call of replay without a fault.\<close>

definition os_reads :: "os_env \<Rightarrow> bool" where
  "os_reads os \<longleftrightarrow> os_open_ok os \<and> os_seek_ok os \<and> os_read_end os = AtEOF"

definition strip_offset :: "LogEntry \<Rightarrow> LogEntry" where
  "strip_offset e = e\<lparr>l_Offset := 0\<rparr>"

lemma strip_with_offsets: "map strip_offset (with_offsets off es) = map strip_offset es"
  by (induction es arbitrary: off) (simp_all add: strip_offset_def)

locale durable_log =
  fixes append :: "'env \<Rightarrow> 'w \<Rightarrow> LogEntry \<Rightarrow> 'fs \<Rightarrow> wal_error option \<times> 'w \<times> 'fs"
    and size :: "'w \<Rightarrow> int"
    and replay :: "'env \<Rightarrow> 'w \<Rightarrow> int \<Rightarrow> 'fs \<Rightarrow> wal_error + LogEntry list"
    and holds :: "'w \<Rightarrow> 'fs \<Rightarrow> LogEntry list \<Rightarrow> bool"
    and room :: "'w \<Rightarrow> bool"
    and readable :: "'env \<Rightarrow> bool"
    and position :: "LogEntry list \<Rightarrow> int"
  assumes append_holds: "holds w fs es \<Longrightarrow> room w \<Longrightarrow> wf_entry e \<Longrightarrow>
        append env w e fs = (None, w', fs') \<Longrightarrow> holds w' fs' (es @ [e])"
    and size_holds: "holds w fs es \<Longrightarrow> size w = position es"
    and position_Nil: "position [] = 0"
    and position_mono: "position es \<le> position (es @ es')"
    and replay_suffix: "holds w fs (es @ es') \<Longrightarrow> readable env \<Longrightarrow>
        \<exists>rs. replay env w (position es) fs = Inr rs \<and> map strip_offset rs = map strip_offset es'"
begin

lemma replay_whole: "holds w fs es \<Longrightarrow> readable env \<Longrightarrow>
    \<exists>rs. replay env w 0 fs = Inr rs \<and> map strip_offset rs = map strip_offset es"
  using replay_suffix [of w fs "[]" es env] by (simp add: position_Nil)

lemma replay_at_end: "holds w fs es \<Longrightarrow> readable env \<Longrightarrow> replay env w (size w) fs = Inr []"
  using replay_suffix [of w fs es "[]" env] by (auto simp: size_holds)

text \<open>An entry appended after position \<open>size w\<close> is what replay from there returns.\<close>

lemma replay_appended:
  assumes "holds w fs es" "room w" "wf_entry e" "append env w e fs = (None, w', fs')" "readable env'"
  shows "\<exists>rs. replay env' w' (size w) fs' = Inr rs \<and> map strip_offset rs = [strip_offset e]"
  using replay_suffix [OF append_holds [OF assms(1-4)] assms(5)] assms(1) by (simp add: size_holds)

end

interpretation wal: durable_log WAL_Append WAL_Size WAL_Replay wal_holds wal_room os_reads log_end
proof (unfold_locales, goal_cases)
  case (1 w fs es e env w' fs')
  then show ?case
    using append_in_place [of env w e fs w' fs']
    by (auto simp: wal_holds_def wal_room_def map_of_append_file)
next
  case (2 w fs es)
  then show ?case by (simp add: WAL_Size_def wal_holds_def log_end_def)
next
  case 3
  show ?case by (simp add: log_end_def)
next
  case (4 es es')
  show ?case by (simp add: log_end_def)
next
  case (5 w fs es es' env)
  have "drop (length (encode_log es)) (encode_log (es @ es')) = encode_log es'" by simp
  then have "WAL_Replay env w (log_end es) fs = replay_loop AtEOF (encode_log es') (log_end es) []"
    using 5 by (auto simp: WAL_Replay_def wal_holds_def os_reads_def log_end_def)
  then show ?case
    using 5 by (auto simp: replay_log wal_holds_def strip_with_offsets)
qed

end
