(* ===== verification/KV_Snapshot.thy ===== *)
theory KV_Snapshot
  imports KV_Memtable KV_Wal
begin

text \<open>
  \<open>storage/snapshot.go\<close>: writing a snapshot through a temporary file, listing, loading the
  latest and pruning. The directory maps file names to files; a file is whole (the encoded
  data, which \<open>encoding/gob\<close> decodes back) or torn (a temporary file cut short).
\<close>

definition maxSnapshots :: nat where "maxSnapshots = 3"

record SnapshotMeta =
  s_CreatedAt :: int
  s_WALOffset :: int
  s_EntryCount :: int
  s_NodeID :: string

record SnapshotData =
  sd_Meta :: SnapshotMeta
  sd_Entries :: "Entry list"

datatype snap_file = Whole SnapshotData | Torn

datatype snap_error =
  ErrCreateTmp | ErrEncode | ErrSyncSnapshot | ErrRenameSnapshot | ErrGlob | ErrOpenSnapshot | ErrDecode

record snap_env =
  sn_create_ok :: bool
  sn_encode_ok :: bool
  sn_sync_ok :: bool
  sn_rename_ok :: bool
  sn_glob_ok :: bool
  sn_open_ok :: bool
  sn_remove_ok :: "string \<Rightarrow> bool"
  sn_windows :: bool

definition snapshot_name :: "int \<Rightarrow> string" where
  "snapshot_name createdAt = ''snapshot-'' @ fmt_0d 20 createdAt @ ''.snap''"

text \<open>\<open>os.Remove\<close>, whose failure leaves the file.\<close>

definition remove_file :: "snap_env \<Rightarrow> string \<Rightarrow> 'c dir \<Rightarrow> 'c dir" where
  "remove_file env p d = (if sn_remove_ok env p then AList.delete p d else d)"

definition has_suffix :: "string \<Rightarrow> string \<Rightarrow> bool" where
  "has_suffix s suf \<longleftrightarrow> length suf \<le> length s \<and> drop (length s - length suf) s = suf"

text \<open>The names \<open>filepath.Glob\<close> returns for \<open>snapshot-*.snap\<close>.\<close>

definition glob_snapshot :: "string \<Rightarrow> bool" where
  "glob_snapshot n \<longleftrightarrow> 14 \<le> length n \<and> take 9 n = ''snapshot-'' \<and> has_suffix n ''.snap''"

definition listSnapshots :: "snap_env \<Rightarrow> snap_file dir \<Rightarrow> snap_error + string list" where
  "listSnapshots env d =
     (if \<not> sn_glob_ok env then Inl ErrGlob
      else let matches = filter glob_snapshot (map fst d);
               clean = filter (\<lambda>m. \<not> has_suffix m ''.tmp'') matches
           in Inr (sort clean))"

definition pruneOld :: "snap_env \<Rightarrow> snap_file dir \<Rightarrow> snap_error option \<times> snap_file dir" where
  "pruneOld env d =
     (case listSnapshots env d of
        Inl err \<Rightarrow> (Some err, d)
      | Inr files \<Rightarrow>
          (None, foldl (\<lambda>d f. remove_file env f d) d (take (length files - maxSnapshots) files)))"

definition Snapshot_Write ::
  "snap_env \<Rightarrow> SnapshotData \<Rightarrow> snap_file dir \<Rightarrow> snap_error option \<times> snap_file dir" where
  "Snapshot_Write env data d =
     (let finalPath = snapshot_name (s_CreatedAt (sd_Meta data));
          tmpPath = finalPath @ ''.tmp''
      in if \<not> sn_create_ok env then (Some ErrCreateTmp, d)
         else let d1 = AList.update tmpPath Torn d
              in if \<not> sn_encode_ok env then (Some ErrEncode, remove_file env tmpPath d1)
                 else let d2 = AList.update tmpPath (Whole data) d1
                      in if \<not> sn_sync_ok env then (Some ErrSyncSnapshot, remove_file env tmpPath d2)
                         else let d3 = (if sn_windows env then remove_file env finalPath d2 else d2)
                              in if \<not> sn_rename_ok env then (Some ErrRenameSnapshot, d3)
                                 else pruneOld env
                                        (AList.update finalPath (Whole data) (AList.delete tmpPath d3)))"

definition LoadLatest :: "snap_env \<Rightarrow> snap_file dir \<Rightarrow> snap_error + SnapshotData option" where
  "LoadLatest env d =
     (case listSnapshots env d of
        Inl err \<Rightarrow> Inl err
      | Inr [] \<Rightarrow> Inr None
      | Inr files \<Rightarrow>
          if \<not> sn_open_ok env then Inl ErrOpenSnapshot
          else case map_of d (last files) of
                 Some (Whole data) \<Rightarrow> Inr (Some data)
               | Some Torn \<Rightarrow> Inl ErrDecode
               | None \<Rightarrow> Inl ErrOpenSnapshot)"

section \<open>File names\<close>

text \<open>Creation times a zero-padded name of twenty digits orders correctly.\<close>

definition valid_created :: "int \<Rightarrow> bool" where
  "valid_created t \<longleftrightarrow> 0 \<le> t \<and> t < 10 ^ 20"

lemma append_less_iff: "(xs @ ys < xs @ (zs :: 'a :: linorder list)) \<longleftrightarrow> ys < zs"
  by (induction xs) auto

lemma less_append_same_length:
  "length xs = length (ys :: 'a :: linorder list) \<Longrightarrow> xs @ zs < ys @ zs \<longleftrightarrow> xs < ys"
  by (induction xs ys rule: list_induct2) auto

lemma snapshot_name_less_iff:
  "valid_created a \<Longrightarrow> valid_created b \<Longrightarrow> snapshot_name a < snapshot_name b \<longleftrightarrow> a < b"
  using fmt_0d_less_iff [of 20 a b]
  by (simp add: snapshot_name_def valid_created_def append_less_iff less_append_same_length fmt_0d_fixed)

lemma snapshot_name_inj:
  "valid_created a \<Longrightarrow> valid_created b \<Longrightarrow> snapshot_name a = snapshot_name b \<longleftrightarrow> a = b"
  using snapshot_name_less_iff [of a b] snapshot_name_less_iff [of b a] by (metis less_irrefl linorder_neqE)

lemma length_snapshot_name: "valid_created a \<Longrightarrow> length (snapshot_name a) = 34"
  by (simp add: snapshot_name_def valid_created_def fmt_0d_fixed)

lemma glob_snapshot_name: "valid_created a \<Longrightarrow> glob_snapshot (snapshot_name a)"
  by (simp add: glob_snapshot_def has_suffix_def snapshot_name_def valid_created_def fmt_0d_fixed)

lemma has_suffixE: "has_suffix s suf \<Longrightarrow> \<exists>p. s = p @ suf"
  by (metis append_take_drop_id has_suffix_def)

lemma not_tmp_glob: "glob_snapshot n \<Longrightarrow> \<not> has_suffix n ''.tmp''"
proof
  assume g: "glob_snapshot n" and t: "has_suffix n ''.tmp''"
  obtain p q where "n = p @ ''.snap''" "n = q @ ''.tmp''"
    using g t has_suffixE unfolding glob_snapshot_def by blast
  then have "rev (p @ ''.snap'') = rev (q @ ''.tmp'')" by simp
  then show False by simp
qed

lemma not_glob_tmp [simp]: "\<not> glob_snapshot (n @ ''.tmp'')"
  by (simp add: glob_snapshot_def has_suffix_def)

section \<open>The directory invariant\<close>

text \<open>Names are unique, and every file the pattern matches is a whole snapshot stored under
  the name of its own creation time.\<close>

definition created :: "SnapshotData \<Rightarrow> int" where
  "created data = s_CreatedAt (sd_Meta data)"

definition snap_ok :: "snap_file dir \<Rightarrow> bool" where
  "snap_ok d \<longleftrightarrow> distinct (map fst d) \<and>
     (\<forall>n f. map_of d n = Some f \<longrightarrow> glob_snapshot n \<longrightarrow>
        (\<exists>data. f = Whole data \<and> valid_created (created data) \<and> n = snapshot_name (created data)))"

definition stored :: "snap_file dir \<Rightarrow> SnapshotData set" where
  "stored d = {data. valid_created (created data) \<and> map_of d (snapshot_name (created data)) = Some (Whole data)}"

definition snapshot_files :: "snap_file dir \<Rightarrow> string list" where
  "snapshot_files d = sort (filter glob_snapshot (map fst d))"

lemma listSnapshots_ok: "sn_glob_ok env \<Longrightarrow> listSnapshots env d = Inr (snapshot_files d)"
proof -
  have "filter (\<lambda>m. \<not> has_suffix m ''.tmp'') (filter glob_snapshot xs) = filter glob_snapshot xs" for xs
    using not_tmp_glob by (induction xs) auto
  then show "sn_glob_ok env \<Longrightarrow> ?thesis"
    by (simp add: listSnapshots_def snapshot_files_def)
qed

lemma set_snapshot_files:
  assumes "snap_ok d"
  shows "set (snapshot_files d) = (\<lambda>data. snapshot_name (created data)) ` stored d"
proof
  show "set (snapshot_files d) \<subseteq> (\<lambda>data. snapshot_name (created data)) ` stored d"
  proof
    fix n assume "n \<in> set (snapshot_files d)"
    then obtain f where f: "map_of d n = Some f" and g: "glob_snapshot n"
      using assms by (auto simp: snapshot_files_def snap_ok_def)
    with assms show "n \<in> (\<lambda>data. snapshot_name (created data)) ` stored d"
      by (fastforce simp: snap_ok_def stored_def)
  qed
  show "(\<lambda>data. snapshot_name (created data)) ` stored d \<subseteq> set (snapshot_files d)"
    by (auto simp: snapshot_files_def stored_def glob_snapshot_name dest: map_of_SomeD intro!: image_eqI)
qed

lemma distinct_snapshot_files: "snap_ok d \<Longrightarrow> distinct (snapshot_files d)"
  by (simp add: snapshot_files_def snap_ok_def)

lemma stored_inj: "x \<in> stored d \<Longrightarrow> y \<in> stored d \<Longrightarrow> created x = created y \<Longrightarrow> x = y"
  by (auto simp: stored_def)

text \<open>\<open>LoadLatest\<close> returns the stored snapshot with the greatest creation time.\<close>

lemma LoadLatest_latest:
  assumes d: "snap_ok d" and env: "sn_glob_ok env" "sn_open_ok env"
    and x: "x \<in> stored d" "\<forall>y\<in>stored d. created y \<le> created x"
  shows "LoadLatest env d = Inr (Some x)"
proof -
  let ?fs = "snapshot_files d" and ?n = "snapshot_name (created x)"
  have n: "?n \<in> set ?fs" using x by (simp add: set_snapshot_files [OF d])
  then have ne: "?fs \<noteq> []" by auto
  have "last ?fs \<in> set ?fs" using ne by simp
  then obtain y where y: "y \<in> stored d" "last ?fs = snapshot_name (created y)"
    by (auto simp: set_snapshot_files [OF d])
  have "?n \<le> last ?fs"
    using n by (intro sorted_le_last) (simp_all add: snapshot_files_def)
  then have "created x \<le> created y"
    using x y snapshot_name_less_iff [of "created y" "created x"] by (auto simp: stored_def)
  then have "created y = created x" using x y by (meson order_antisym)
  then have "y = x" using stored_inj x y by blast
  with y ne x show ?thesis
    by (auto simp: LoadLatest_def listSnapshots_ok env stored_def split: list.split)
qed

lemma LoadLatest_none: "snap_ok d \<Longrightarrow> sn_glob_ok env \<Longrightarrow> stored d = {} \<Longrightarrow> LoadLatest env d = Inr None"
  using set_snapshot_files [of d] by (simp add: LoadLatest_def listSnapshots_ok)

section \<open>Writing and pruning\<close>

lemma map_of_remove_files:
  "map_of (foldl (\<lambda>d f. remove_file env f d) d fs) n =
   (if n \<in> set fs \<and> sn_remove_ok env n then None else map_of d n)"
  by (induction fs arbitrary: d) (auto simp: remove_file_def AList.delete_conv')

lemma distinct_remove_files:
  "distinct (map fst d) \<Longrightarrow> distinct (map fst (foldl (\<lambda>d f. remove_file env f d) d fs))"
  by (induction fs arbitrary: d) (auto simp: remove_file_def distinct_delete)

lemma snap_ok_remove_files: "snap_ok d \<Longrightarrow> snap_ok (foldl (\<lambda>d f. remove_file env f d) d fs)"
  by (simp add: snap_ok_def map_of_remove_files distinct_remove_files)

lemma snap_ok_remove: "snap_ok d \<Longrightarrow> snap_ok (remove_file env f d)"
  using snap_ok_remove_files [of d env "[f]"] by simp

lemma snap_ok_tmp: "snap_ok d \<Longrightarrow> snap_ok (AList.update (n @ ''.tmp'') f d)"
  by (simp add: snap_ok_def AList.update_conv' distinct_update)

lemma snap_ok_delete: "snap_ok d \<Longrightarrow> snap_ok (AList.delete n d)"
  by (simp add: snap_ok_def AList.delete_conv' distinct_delete)

lemma snap_ok_store:
  "snap_ok d \<Longrightarrow> valid_created (created data) \<Longrightarrow>
   snap_ok (AList.update (snapshot_name (created data)) (Whole data) d)"
  by (auto simp: snap_ok_def AList.update_conv' distinct_update)

lemma pruneOld_snap_ok: "snap_ok d \<Longrightarrow> pruneOld env d = (r, d') \<Longrightarrow> snap_ok d'"
  by (auto simp: pruneOld_def snap_ok_remove_files split: sum.splits)

lemma Snapshot_Write_ok:
  assumes "snap_ok d" "valid_created (created data)" "Snapshot_Write env data d = (r, d')"
  shows "snap_ok d'"
  using assms
  by (auto simp: Snapshot_Write_def Let_def snap_ok_tmp snap_ok_remove snap_ok_delete snap_ok_store
      created_def [symmetric] intro: pruneOld_snap_ok [rotated] split: if_splits)


text \<open>The directory once the temporary file has been renamed, before pruning.\<close>

definition renamed :: "snap_env \<Rightarrow> SnapshotData \<Rightarrow> snap_file dir \<Rightarrow> snap_file dir" where
  "renamed env data d =
     (let finalPath = snapshot_name (created data); tmpPath = finalPath @ ''.tmp'';
          d2 = AList.update tmpPath (Whole data) (AList.update tmpPath Torn d);
          d3 = (if sn_windows env then remove_file env finalPath d2 else d2)
      in AList.update finalPath (Whole data) (AList.delete tmpPath d3))"

lemma Snapshot_Write_success:
  "Snapshot_Write env data d = (None, d') \<Longrightarrow> pruneOld env (renamed env data d) = (None, d') \<and> sn_glob_ok env"
  by (auto simp: Snapshot_Write_def renamed_def created_def Let_def pruneOld_def listSnapshots_def
      split: if_splits)

lemma map_of_renamed:
  "n \<noteq> snapshot_name (created data) @ ''.tmp'' \<Longrightarrow>
   map_of (renamed env data d) n = (if n = snapshot_name (created data) then Some (Whole data) else map_of d n)"
  by (simp add: renamed_def Let_def AList.update_conv' AList.delete_conv' remove_file_def)

lemma snap_ok_renamed: "snap_ok d \<Longrightarrow> valid_created (created data) \<Longrightarrow> snap_ok (renamed env data d)"
  by (simp add: renamed_def Let_def snap_ok_tmp snap_ok_remove snap_ok_delete snap_ok_store)

lemma snapshot_name_not_tmp: "valid_created a \<Longrightarrow> snapshot_name a \<noteq> n @ ''.tmp''"
  using glob_snapshot_name not_glob_tmp by metis

lemma stored_renamed:
  assumes "valid_created (created data)"
  shows "stored (renamed env data d) = insert data {x \<in> stored d. created x \<noteq> created data}"
  using assms
  by (auto simp: stored_def map_of_renamed snapshot_name_not_tmp snapshot_name_inj split: if_splits)

text \<open>A successful write of the newest snapshot makes it the latest and keeps at most three.\<close>

lemma Snapshot_Write_latest:
  assumes d: "snap_ok d" "valid_created (created data)" "\<forall>y\<in>stored d. created y < created data"
    and w: "Snapshot_Write env data d = (None, d')"
  shows "data \<in> stored d' \<and> (\<forall>y\<in>stored d'. created y \<le> created data)"
proof -
  let ?r = "renamed env data d"
  let ?fs = "snapshot_files ?r" and ?n = "snapshot_name (created data)"
  have ok: "snap_ok ?r" by (rule snap_ok_renamed [OF d(1,2)])
  from Snapshot_Write_success [OF w] have d': "d' = foldl (\<lambda>d f. remove_file env f d) ?r (take (length ?fs - 3) ?fs)"
    by (auto simp: pruneOld_def listSnapshots_ok maxSnapshots_def)
  have st: "stored ?r = insert data (stored d)"
    using d by (auto simp: stored_renamed)
  have n: "?n \<in> set ?fs" by (simp add: set_snapshot_files [OF ok] st)
  have "last ?fs \<in> set ?fs" using n by (cases ?fs) auto
  then obtain y where y: "y \<in> stored ?r" "last ?fs = snapshot_name (created y)"
    by (auto simp: set_snapshot_files [OF ok])
  have "?n \<le> last ?fs" using n by (intro sorted_le_last) (simp_all add: snapshot_files_def)
  then have "created data \<le> created y"
    using y d(2) snapshot_name_less_iff [of "created y" "created data"] by (auto simp: stored_def)
  then have last: "last ?fs = ?n" using y st d(3) by force
  have "?fs \<noteq> []" using n by auto
  then have keep: "?n \<notin> set (take (length ?fs - 3) ?fs)"
    using last_notin_take [OF distinct_snapshot_files [OF ok], of 3] last by simp
  have m: "map_of d' k = (if k \<in> set (take (length ?fs - 3) ?fs) \<and> sn_remove_ok env k then None else map_of ?r k)" for k
    unfolding d' by (rule map_of_remove_files)
  have "stored d' \<subseteq> stored ?r" by (auto simp: stored_def m split: if_splits)
  moreover have "data \<in> stored d'"
    using d(2) keep by (simp add: stored_def m map_of_renamed snapshot_name_not_tmp)
  ultimately show ?thesis using st d(3) by force
qed

lemma Snapshot_Write_stored:
  assumes "snap_ok d" "valid_created (created data)" "Snapshot_Write env data d = (None, d')"
  shows "stored d' \<subseteq> insert data (stored d)"
proof -
  let ?r = "renamed env data d"
  let ?fs = "snapshot_files ?r"
  from Snapshot_Write_success [OF assms(3)] have d': "d' = foldl (\<lambda>d f. remove_file env f d) ?r (take (length ?fs - 3) ?fs)"
    by (auto simp: pruneOld_def listSnapshots_ok maxSnapshots_def)
  have "stored d' \<subseteq> stored ?r"
    unfolding d' by (auto simp: stored_def map_of_remove_files split: if_splits)
  then show ?thesis using assms(2) by (auto simp: stored_renamed)
qed

lemma inj_on_stored: "inj_on (\<lambda>data. snapshot_name (created data)) (stored d)"
proof (rule inj_onI)
  fix x y assume "x \<in> stored d" "y \<in> stored d" "snapshot_name (created x) = snapshot_name (created y)"
  then show "x = y" by (auto simp: stored_def)
qed

lemma set_snapshot_files_map: "snap_ok d \<Longrightarrow> set (snapshot_files d) = {n \<in> dom (map_of d). glob_snapshot n}"
  by (auto simp: snapshot_files_def dom_map_of_conv_image_fst)

lemma Snapshot_Write_retains:
  assumes "snap_ok d" "valid_created (created data)" "\<forall>n. sn_remove_ok env n"
    and w: "Snapshot_Write env data d = (None, d')"
  shows "card (stored d') \<le> 3"
proof -
  let ?r = "renamed env data d"
  let ?fs = "snapshot_files ?r"
  have ok: "snap_ok ?r" by (rule snap_ok_renamed [OF assms(1,2)])
  have ok': "snap_ok d'" by (rule Snapshot_Write_ok [OF assms(1,2) w])
  from Snapshot_Write_success [OF w] have d': "d' = foldl (\<lambda>d f. remove_file env f d) ?r (take (length ?fs - 3) ?fs)"
    by (auto simp: pruneOld_def listSnapshots_ok maxSnapshots_def)
  have m: "map_of d' n = (if n \<in> set (take (length ?fs - 3) ?fs) then None else map_of ?r n)" for n
    using assms(3) unfolding d' by (simp add: map_of_remove_files)
  have "set (snapshot_files d') \<subseteq> set (drop (length ?fs - 3) ?fs)"
  proof
    fix n assume "n \<in> set (snapshot_files d')"
    then have "n \<in> set ?fs" "n \<notin> set (take (length ?fs - 3) ?fs)"
      unfolding set_snapshot_files_map [OF ok'] set_snapshot_files_map [OF ok]
      by (auto simp: dom_def m split: if_splits)
    then show "n \<in> set (drop (length ?fs - 3) ?fs)"
      using append_take_drop_id [of "length ?fs - 3" ?fs] set_append by (metis Un_iff)
  qed
  then have "card (set (snapshot_files d')) \<le> card (set (drop (length ?fs - 3) ?fs))"
    by (intro card_mono) auto
  also have "\<dots> \<le> 3" by (rule order_trans [OF card_length]) auto
  also have "card (set (snapshot_files d')) = card (stored d')"
    unfolding set_snapshot_files [OF ok'] by (rule card_image) (rule inj_on_stored)
  finally show ?thesis .
qed


text \<open>A write that reports an error leaves the stored snapshots as they were, or has already
  added the new one (when only the listing for pruning failed).\<close>

lemma fresh_name: "snap_ok d \<Longrightarrow> valid_created t \<Longrightarrow> \<forall>y\<in>stored d. created y \<noteq> t \<Longrightarrow> map_of d (snapshot_name t) = None"
proof (rule ccontr)
  assume d: "snap_ok d" and t: "valid_created t" and f: "\<forall>y\<in>stored d. created y \<noteq> t"
    and "map_of d (snapshot_name t) \<noteq> None"
  then obtain f' where f': "map_of d (snapshot_name t) = Some f'" by auto
  then obtain data where "f' = Whole data" "valid_created (created data)"
      "snapshot_name t = snapshot_name (created data)"
    using d glob_snapshot_name [OF t] unfolding snap_ok_def by blast
  with f f' t show False by (auto simp: stored_def snapshot_name_inj)
qed

lemma stored_cong: "(\<And>n. glob_snapshot n \<Longrightarrow> map_of d' n = map_of d n) \<Longrightarrow> stored d' = stored d"
  by (auto simp: stored_def glob_snapshot_name)

lemma Snapshot_Write_failure:
  assumes d: "snap_ok d" "valid_created (created data)" "\<forall>y\<in>stored d. created y < created data"
    and w: "Snapshot_Write env data d = (Some err, d')"
  shows "stored d' = stored d \<or> stored d' = insert data (stored d)"
proof (cases "d' = renamed env data d")
  case True
  then show ?thesis using d by (auto simp: stored_renamed)
next
  case False
  have fresh: "map_of d (snapshot_name (created data)) = None"
    using d by (intro fresh_name) auto
  have "map_of d' n = map_of d n" if "glob_snapshot n" for n
  proof -
    have "n \<noteq> snapshot_name (created data) @ ''.tmp''" using that by (metis not_glob_tmp)
    then show ?thesis
      using w False fresh
      by (auto simp: Snapshot_Write_def Let_def pruneOld_def renamed_def created_def remove_file_def
          AList.update_conv' AList.delete_conv' split: if_splits sum.splits)
  qed
  then have "stored d' = stored d" by (rule stored_cong)
  then show ?thesis by blast
qed

end
