(* ===== verification/KV_Engine.thy ===== *)
theory KV_Engine
  imports KV_Config KV_Snapshot
begin

text \<open>
  \<open>storage/engine.go\<close>: opening (restore the latest snapshot, replay the log), the four
  operations, snapshots and closing. The engine's state carries the files of its data
  directory. The calls to the Prometheus metrics are recorded in the order they are made;
  they change nothing the engine reads. The background loop's ticker is created by \<open>Open\<close> from
  \<open>SnapshotInterval\<close>; the interval is taken to be positive (\<open>time.NewTicker\<close> panics otherwise).
\<close>

datatype kv_error =
    ErrKeyNotFound | ErrEmptyKey | ErrEngineClosed
  | ErrWalAppend wal_error | ErrPanicDivide
  | ErrCreateDataDir | ErrLoadSnapshot snap_error | ErrEngineOpenWal wal_error
  | ErrReplayWal wal_error | ErrCloseWal wal_error

datatype metric_call =
    IncPuts | IncGets | IncDeletes | IncErrors string
  | SetMemtableSize int | SetWALSize int | ObserveDuration string

record KVValue =
  v_Data :: bytes
  v_Timestamp :: int

text \<open>\<open>en_pending\<close> counts the snapshot goroutines that \<open>Put\<close> has started and that have not run yet.\<close>

record 't StorageEngine =
  en_cfg :: Config
  en_wal :: WAL
  en_memtable :: "'t Memtable"
  en_writeCount :: int
  en_closed :: bool
  en_pending :: nat
  en_metrics :: "metric_call list"
  en_files :: "bytes dir"
  en_snaps :: "snap_file dir"

section \<open>Opening\<close>

definition restore_entries :: "(Entry, 't) btree_ops \<Rightarrow> Entry list \<Rightarrow> 't Memtable \<Rightarrow> 't Memtable" where
  "restore_entries bt es m =
     foldl (\<lambda>m e. if e_Tombstone e then Memtable_Delete bt (e_Key e) (e_Timestamp e) m
                  else Memtable_Put bt (e_Key e) (e_Value e) (e_Timestamp e) m) m es"

definition replay_entries :: "(Entry, 't) btree_ops \<Rightarrow> LogEntry list \<Rightarrow> 't Memtable \<Rightarrow> 't Memtable" where
  "replay_entries bt es m =
     foldl (\<lambda>m e. if l_OpType e = OpTypeDelete then Memtable_Delete bt (l_Key e) (l_Timestamp e) m
                  else Memtable_Put bt (l_Key e) (l_Value e) (l_Timestamp e) m) m es"

definition Engine_Open ::
  "(Entry, 't) btree_ops \<Rightarrow> os_env \<Rightarrow> snap_env \<Rightarrow> bool \<Rightarrow> Config \<Rightarrow> bytes dir \<Rightarrow> snap_file dir \<Rightarrow>
   (kv_error + 't StorageEngine) \<times> bytes dir" where
  "Engine_Open bt os sn mkdir_ok cfg files snaps =
     (if \<not> mkdir_ok then (Inl ErrCreateDataDir, files)
      else case LoadLatest sn snaps of
        Inl err \<Rightarrow> (Inl (ErrLoadSnapshot err), files)
      | Inr snap \<Rightarrow>
          let walOffset = (case snap of None \<Rightarrow> 0 | Some s \<Rightarrow> s_WALOffset (sd_Meta s));
              mem = (case snap of None \<Rightarrow> NewMemtable bt
                     | Some s \<Rightarrow> restore_entries bt (sd_Entries s) (NewMemtable bt))
          in case OpenWAL os ''wal.log'' (c_WALMaxSizeBytes cfg) files of
               (Inl err, files1) \<Rightarrow> (Inl (ErrEngineOpenWal err), files1)
             | (Inr wal, files1) \<Rightarrow>
                 (case WAL_Replay os wal walOffset files1 of
                    Inl err \<Rightarrow> (Inl (ErrReplayWal err), files1)
                  | Inr entries \<Rightarrow>
                      (Inr \<lparr>en_cfg = cfg, en_wal = wal, en_memtable = replay_entries bt entries mem,
                            en_writeCount = 0, en_closed = False, en_pending = 0, en_metrics = [],
                            en_files = files1, en_snaps = snaps\<rparr>, files1)))"

section \<open>Operations\<close>

definition with_metrics :: "metric_call list \<Rightarrow> 't StorageEngine \<Rightarrow> 't StorageEngine" where
  "with_metrics ms e = e\<lparr>en_metrics := en_metrics e @ ms\<rparr>"

text \<open>\<open>now\<close> is the time the entry is stamped with. The deferred observation of the duration is
  the last metrics call on every path past the two guards.\<close>

definition Engine_Put ::
  "(Entry, 't) btree_ops \<Rightarrow> os_env \<Rightarrow> int \<Rightarrow> key \<Rightarrow> bytes \<Rightarrow> 't StorageEngine \<Rightarrow>
   kv_error option \<times> 't StorageEngine" where
  "Engine_Put bt os now k v e =
     (if en_closed e then (Some ErrEngineClosed, e)
      else if k = [] then (Some ErrEmptyKey, e)
      else let entry = \<lparr>l_Timestamp = now, l_Key = k, l_Value = v, l_OpType = OpTypePut, l_Offset = 0\<rparr>
           in case WAL_Append os (en_wal e) entry (en_files e) of
                (Some err, wal, files) \<Rightarrow>
                  (Some (ErrWalAppend err),
                   with_metrics [IncErrors ''put'', ObserveDuration ''put''] (e\<lparr>en_wal := wal, en_files := files\<rparr>))
              | (None, wal, files) \<Rightarrow>
                  let mem = Memtable_Put bt k v now (en_memtable e);
                      count = en_writeCount e + 1;
                      e1 = with_metrics [IncPuts, SetMemtableSize (Memtable_Size mem), SetWALSize (WAL_Size wal),
                                 ObserveDuration ''put'']
                             (e\<lparr>en_wal := wal, en_files := files, en_memtable := mem, en_writeCount := count\<rparr>)
                  in if c_SnapshotThreshold (en_cfg e) = 0 then (Some ErrPanicDivide, e1)
                     else if count mod c_SnapshotThreshold (en_cfg e) = 0
                     then (None, e1\<lparr>en_pending := en_pending e + 1\<rparr>)
                     else (None, e1))"

definition Engine_Get ::
  "(Entry, 't) btree_ops \<Rightarrow> key \<Rightarrow> 't StorageEngine \<Rightarrow> (kv_error + KVValue) \<times> 't StorageEngine" where
  "Engine_Get bt k e =
     (if en_closed e then (Inl ErrEngineClosed, e)
      else let e1 = with_metrics [IncGets, ObserveDuration ''get''] e
           in case Memtable_Get bt (en_memtable e) k of
                None \<Rightarrow> (Inl ErrKeyNotFound, e1)
              | Some entry \<Rightarrow> (Inr \<lparr>v_Data = e_Value entry, v_Timestamp = e_Timestamp entry\<rparr>, e1))"

definition Engine_Delete ::
  "(Entry, 't) btree_ops \<Rightarrow> os_env \<Rightarrow> int \<Rightarrow> key \<Rightarrow> 't StorageEngine \<Rightarrow>
   kv_error option \<times> 't StorageEngine" where
  "Engine_Delete bt os now k e =
     (if en_closed e then (Some ErrEngineClosed, e)
      else if k = [] then (Some ErrEmptyKey, e)
      else let entry = \<lparr>l_Timestamp = now, l_Key = k, l_Value = [], l_OpType = OpTypeDelete, l_Offset = 0\<rparr>
           in case WAL_Append os (en_wal e) entry (en_files e) of
                (Some err, wal, files) \<Rightarrow>
                  (Some (ErrWalAppend err),
                   with_metrics [IncErrors ''delete'', ObserveDuration ''delete'']
                     (e\<lparr>en_wal := wal, en_files := files\<rparr>))
              | (None, wal, files) \<Rightarrow>
                  (None, with_metrics [IncDeletes, ObserveDuration ''delete'']
                     (e\<lparr>en_wal := wal, en_files := files,
                        en_memtable := Memtable_Delete bt k now (en_memtable e)\<rparr>)))"

definition Engine_Scan ::
  "(Entry, 't) btree_ops \<Rightarrow> key \<Rightarrow> key \<Rightarrow> 't StorageEngine \<Rightarrow> kv_error + KVValue list" where
  "Engine_Scan bt start end e =
     (if en_closed e then Inl ErrEngineClosed
      else Inr (map (\<lambda>entry. \<lparr>v_Data = e_Value entry, v_Timestamp = e_Timestamp entry\<rparr>)
                  (Memtable_Scan bt (en_memtable e) start end)))"

section \<open>Snapshots and closing\<close>

text \<open>\<open>takeSnapshot\<close> reads the table and then the log size; no writer holds \<open>e.mu\<close>, so the two
  reads are separate steps. \<open>write_snapshot\<close> is what follows them.\<close>

definition write_snapshot ::
  "snap_env \<Rightarrow> int \<Rightarrow> Entry list \<Rightarrow> int \<Rightarrow> 't StorageEngine \<Rightarrow> 't StorageEngine" where
  "write_snapshot sn createdAt allEntries walOffset e =
     (let data = \<lparr>sd_Meta = \<lparr>s_CreatedAt = createdAt, s_WALOffset = walOffset,
                             s_EntryCount = int (length allEntries), s_NodeID = c_NodeID (en_cfg e)\<rparr>,
                  sd_Entries = allEntries\<rparr>
      in case Snapshot_Write sn data (en_snaps e) of (_, snaps) \<Rightarrow> e\<lparr>en_snaps := snaps\<rparr>)"

definition takeSnapshot ::
  "(Entry, 't) btree_ops \<Rightarrow> snap_env \<Rightarrow> int \<Rightarrow> 't StorageEngine \<Rightarrow> 't StorageEngine" where
  "takeSnapshot bt sn createdAt e =
     (let allEntries = Memtable_All bt (en_memtable e);
          walOffset = WAL_Size (en_wal e)
      in write_snapshot sn createdAt allEntries walOffset e)"

definition Engine_Close ::
  "(Entry, 't) btree_ops \<Rightarrow> os_env \<Rightarrow> snap_env \<Rightarrow> int \<Rightarrow> 't StorageEngine \<Rightarrow>
   kv_error option \<times> 't StorageEngine" where
  "Engine_Close bt os sn createdAt e =
     (if en_closed e then (None, e)
      else let e1 = takeSnapshot bt sn createdAt (e\<lparr>en_closed := True\<rparr>)
           in case WAL_Close os (en_wal e1) of
                (err, wal) \<Rightarrow> (map_option ErrCloseWal err, e1\<lparr>en_wal := wal\<rparr>))"

section \<open>Successful writes\<close>

abbreviation put_record :: "int \<Rightarrow> key \<Rightarrow> bytes \<Rightarrow> LogEntry" where
  "put_record now k v \<equiv> \<lparr>l_Timestamp = now, l_Key = k, l_Value = v, l_OpType = OpTypePut, l_Offset = 0\<rparr>"

abbreviation delete_record :: "int \<Rightarrow> key \<Rightarrow> LogEntry" where
  "delete_record now k \<equiv> \<lparr>l_Timestamp = now, l_Key = k, l_Value = [], l_OpType = OpTypeDelete, l_Offset = 0\<rparr>"

lemma Engine_Put_success:
  assumes "Engine_Put bt os now k v e = (None, e')"
  shows "k \<noteq> [] \<and> \<not> en_closed e \<and> \<not> en_closed e' \<and> en_cfg e' = en_cfg e \<and> en_snaps e' = en_snaps e \<and>
    WAL_Append os (en_wal e) (put_record now k v) (en_files e) = (None, en_wal e', en_files e') \<and>
    en_memtable e' = Memtable_Put bt k v now (en_memtable e)"
  using assms by (auto simp: Engine_Put_def Let_def with_metrics_def split: if_splits prod.splits option.splits)

lemma Engine_Delete_success:
  assumes "Engine_Delete bt os now k e = (None, e')"
  shows "k \<noteq> [] \<and> \<not> en_closed e \<and> \<not> en_closed e' \<and> en_cfg e' = en_cfg e \<and> en_snaps e' = en_snaps e \<and>
    WAL_Append os (en_wal e) (delete_record now k) (en_files e) = (None, en_wal e', en_files e') \<and>
    en_memtable e' = Memtable_Delete bt k now (en_memtable e)"
  using assms by (auto simp: Engine_Delete_def Let_def with_metrics_def split: if_splits prod.splits option.splits)

section \<open>What a log means\<close>

text \<open>The abstract table a sequence of log entries leads to: the specification of recovery.\<close>

definition log_entry :: "LogEntry \<Rightarrow> Entry" where
  "log_entry e = (if l_OpType e = OpTypeDelete then mk_entry (l_Key e) [] (l_Timestamp e) True
                  else mk_entry (l_Key e) (l_Value e) (l_Timestamp e) False)"

definition apply_log :: "LogEntry list \<Rightarrow> (key \<rightharpoonup> Entry) \<Rightarrow> key \<rightharpoonup> Entry" where
  "apply_log es f = foldl (\<lambda>f e. f(l_Key e \<mapsto> log_entry e)) f es"

definition log_map :: "LogEntry list \<Rightarrow> key \<rightharpoonup> Entry" where
  "log_map es = apply_log es Map.empty"

lemma apply_log_simps [simp]:
  "apply_log [] f = f"
  "apply_log (e # es) f = apply_log es (f(l_Key e \<mapsto> log_entry e))"
  "apply_log (es @ es') f = apply_log es' (apply_log es f)"
  by (simp_all add: apply_log_def)

lemma log_map_append [simp]: "log_map (es @ es') = apply_log es' (log_map es)"
  by (simp add: log_map_def)

lemma log_entry_strip [simp]: "log_entry (strip_offset e) = log_entry e" "l_Key (strip_offset e) = l_Key e"
  by (simp_all add: log_entry_def strip_offset_def)

lemma apply_log_strip: "map strip_offset rs = map strip_offset es \<Longrightarrow> apply_log rs f = apply_log es f"
proof -
  have "apply_log es f = apply_log (map strip_offset es) f" for es
    by (induction es arbitrary: f) simp_all
  then show "map strip_offset rs = map strip_offset es \<Longrightarrow> ?thesis" by metis
qed

context entry_tree
begin

lemma all_same:
  "mt_ok bt ok m \<Longrightarrow> mt_ok bt ok m' \<Longrightarrow> mt_map bt m = mt_map bt m' \<Longrightarrow> Memtable_All bt m = Memtable_All bt m'"
  by (rule table.all_eq)

lemma get_same:
  "mt_ok bt ok m \<Longrightarrow> mt_ok bt ok m' \<Longrightarrow> mt_map bt m = mt_map bt m' \<Longrightarrow> Memtable_Get bt m = Memtable_Get bt m'"
  by (rule ext) (simp add: table.get_abs)

lemma restore_feed: "restore_entries bt es m = table.feed es m"
  by (simp add: restore_entries_def table.feed_def)

lemma replay_entries_ok: "mt_ok bt ok m \<Longrightarrow> mt_ok bt ok (replay_entries bt es m)"
  unfolding replay_entries_def
  by (induction es arbitrary: m) (auto simp: put_ok delete_ok)

lemma mt_map_replay: "mt_ok bt ok m \<Longrightarrow> mt_map bt (replay_entries bt es m) = apply_log es (mt_map bt m)"
proof (induction es arbitrary: m)
  case Nil
  then show ?case by (simp add: replay_entries_def)
next
  case (Cons e es)
  let ?m = "if l_OpType e = OpTypeDelete then Memtable_Delete bt (l_Key e) (l_Timestamp e) m
            else Memtable_Put bt (l_Key e) (l_Value e) (l_Timestamp e) m"
  have "replay_entries bt (e # es) m = replay_entries bt es ?m" by (simp add: replay_entries_def)
  moreover have "mt_map bt ?m = (mt_map bt m)(l_Key e \<mapsto> log_entry e)"
    using Cons.prems by (simp add: table.abs_put table.abs_del log_entry_def)
  moreover have "mt_ok bt ok ?m" using Cons.prems by (simp add: put_ok delete_ok)
  ultimately show ?case using Cons.IH [of ?m] by (simp add: fun_upd_def)
qed

end

section \<open>Durability\<close>

text \<open>What the data directory says: the newest snapshot lists the map of a prefix of the log and
  records where that prefix ends, and the map \<open>f\<close> is that of the whole log.\<close>

definition log_file :: "bytes dir \<Rightarrow> LogEntry list \<Rightarrow> bool" where
  "log_file fs es \<longleftrightarrow> map_of fs ''wal.log'' = Some (encode_log es) \<and> (\<forall>e\<in>set es. wf_entry e)"

definition snapshot_covers :: "snap_file dir \<Rightarrow> LogEntry list \<Rightarrow> bool" where
  "snapshot_covers snaps es \<longleftrightarrow> stored snaps = {} \<and> es = [] \<or>
     (\<exists>s\<in>stored snaps. (\<forall>y\<in>stored snaps. created y \<le> created s) \<and>
        s_WALOffset (sd_Meta s) = log_end es \<and> lists_map (sd_Entries s) (log_map es))"

definition on_disk :: "bytes dir \<Rightarrow> snap_file dir \<Rightarrow> (key \<rightharpoonup> Entry) \<Rightarrow> bool" where
  "on_disk fs snaps f \<longleftrightarrow> snap_ok snaps \<and>
     (\<exists>es es'. log_file fs (es @ es') \<and> snapshot_covers snaps es \<and> f = log_map (es @ es'))"

text \<open>The engine is durable when its directory says what its table holds and its log handle is
  in step with the file.\<close>

definition durable :: "(Entry, 't) btree_ops \<Rightarrow> ('t \<Rightarrow> bool) \<Rightarrow> 't StorageEngine \<Rightarrow> bool" where
  "durable bt ok e \<longleftrightarrow> mt_ok bt ok (en_memtable e) \<and> wal_ok (en_wal e) (en_files e) \<and>
     on_disk (en_files e) (en_snaps e) (mt_map bt (en_memtable e))"

text \<open>Systems that answer \<open>Open\<close> without a fault.\<close>

definition sn_reads :: "snap_env \<Rightarrow> bool" where
  "sn_reads sn \<longleftrightarrow> sn_glob_ok sn \<and> sn_open_ok sn"

definition os_opens :: "os_env \<Rightarrow> bool" where
  "os_opens os \<longleftrightarrow> os_reads os \<and> os_stat_ok os"

lemma log_map_tombstone: "log_map es k = Some e \<Longrightarrow> e_Tombstone e \<Longrightarrow> e_Value e = []"
  by (induction es arbitrary: e rule: rev_induct) (auto simp: log_map_def log_entry_def split: if_splits)

lemma wal_holds_iff: "wal_holds w fs es \<longleftrightarrow> wal_ok w fs \<and> w_open w \<and> log_file fs es"
  by (auto simp: wal_holds_def wal_ok_def log_file_def)

lemma covers_latest:
  assumes "snapshot_covers snaps es" "s \<in> stored snaps" "\<forall>y\<in>stored snaps. created y \<le> created s"
  shows "s_WALOffset (sd_Meta s) = log_end es \<and> lists_map (sd_Entries s) (log_map es)"
proof -
  obtain s' where s': "s' \<in> stored snaps" "\<forall>y\<in>stored snaps. created y \<le> created s'"
      "s_WALOffset (sd_Meta s') = log_end es" "lists_map (sd_Entries s') (log_map es)"
    using assms by (auto simp: snapshot_covers_def)
  then have "created s = created s'" using assms(2,3) by (meson order_antisym)
  then have "s = s'" by (rule stored_inj [OF assms(2) s'(1)])
  with s' show ?thesis by simp
qed

context entry_tree
begin

lemma all_lists: "mt_ok bt ok m \<Longrightarrow> lists_map (Memtable_All bt m) (mt_map bt m)"
  by (rule table.all_abs)

lemma restore_covers:
  assumes "snap_ok snaps" "sn_reads sn" "snapshot_covers snaps es"
  shows "\<exists>snap. LoadLatest sn snaps = Inr snap \<and>
    (case snap of None \<Rightarrow> 0 | Some s \<Rightarrow> s_WALOffset (sd_Meta s)) = log_end es \<and>
    (let mem = (case snap of None \<Rightarrow> NewMemtable bt
                | Some s \<Rightarrow> restore_entries bt (sd_Entries s) (NewMemtable bt))
     in mt_ok bt ok mem \<and> mt_map bt mem = log_map es)"
proof (cases "stored snaps = {}")
  case True
  then have "es = []" using assms(3) by (auto simp: snapshot_covers_def)
  with True assms show ?thesis
    by (simp add: LoadLatest_none sn_reads_def wal.position_Nil table.good_new table.abs_new log_map_def)
next
  case False
  then obtain s where s: "s \<in> stored snaps" "\<forall>y\<in>stored snaps. created y \<le> created s"
      "s_WALOffset (sd_Meta s) = log_end es" "lists_map (sd_Entries s) (log_map es)"
    using assms(3) by (auto simp: snapshot_covers_def)
  have "mt_map bt (restore_entries bt (sd_Entries s) (NewMemtable bt)) = log_map es"
    unfolding restore_feed by (rule table.abs_feed_lists [OF s(4)]) (rule log_map_tombstone)
  with s assms(1,2) show ?thesis
    by (simp add: LoadLatest_latest sn_reads_def restore_feed table.good_feed table.good_new)
qed

text \<open>\<open>Open\<close> in terms of what replay makes of the bytes after the snapshot's position.\<close>

lemma Open_on_file:
  assumes "snap_ok snaps" "snapshot_covers snaps es" "map_of files ''wal.log'' = Some c"
    and "sn_reads sn" "os_opens os"
    and r: "replay_loop AtEOF (drop (nat (log_end es)) c) (log_end es) [] = r"
  shows "case r of
      Inl err \<Rightarrow> Engine_Open bt os sn True cfg files snaps = (Inl (ErrReplayWal err), files)
    | Inr rs \<Rightarrow> \<exists>e. Engine_Open bt os sn True cfg files snaps = (Inr e, files) \<and>
        mt_ok bt ok (en_memtable e) \<and> mt_map bt (en_memtable e) = apply_log rs (log_map es) \<and>
        wal_ok (en_wal e) files \<and> w_open (en_wal e) \<and> \<not> en_closed e \<and>
        en_files e = files \<and> en_snaps e = snaps"
proof -
  obtain snap where snap: "LoadLatest sn snaps = Inr snap"
      "(case snap of None \<Rightarrow> 0 | Some s \<Rightarrow> s_WALOffset (sd_Meta s)) = log_end es"
    and mem: "let mem = (case snap of None \<Rightarrow> NewMemtable bt
                | Some s \<Rightarrow> restore_entries bt (sd_Entries s) (NewMemtable bt))
     in mt_ok bt ok mem \<and> mt_map bt mem = log_map es"
    using restore_covers [OF assms(1,4,2)] by blast
  let ?w = "\<lparr>w_path = ''wal.log'', w_open = True, w_size = int (length c), w_maxSize = c_WALMaxSizeBytes cfg\<rparr>"
  have w: "OpenWAL os ''wal.log'' (c_WALMaxSizeBytes cfg) files = (Inr ?w, files)"
    using assms(3,5) by (simp add: OpenWAL_def os_opens_def os_reads_def open_create_def Let_def)
  have "WAL_Replay os ?w (log_end es) files = r"
    using assms(3,5) r by (auto simp: WAL_Replay_def os_opens_def os_reads_def)
  then show ?thesis
    using snap w mem assms(3)
    by (auto simp: Engine_Open_def Let_def mt_map_replay replay_entries_ok wal_ok_def split: sum.split)
qed

lemma Open_recovers:
  assumes "on_disk files snaps f" "sn_reads sn" "os_opens os"
  shows "\<exists>e. Engine_Open bt os sn True cfg files snaps = (Inr e, files) \<and>
    mt_map bt (en_memtable e) = f \<and> durable bt ok e \<and> w_open (en_wal e) \<and> \<not> en_closed e"
proof -
  obtain es es' where d: "snap_ok snaps" "log_file files (es @ es')" "snapshot_covers snaps es"
      "f = log_map (es @ es')"
    using assms(1) by (auto simp: on_disk_def)
  have "replay_loop AtEOF (encode_log es') (log_end es) [] = Inr (with_offsets (log_end es) es')"
    using d(2) by (simp add: replay_log log_file_def)
  then have r: "replay_loop AtEOF (drop (nat (log_end es)) (encode_log (es @ es'))) (log_end es) [] =
      Inr (with_offsets (log_end es) es')"
    by (simp add: log_end_def)
  obtain e where e: "Engine_Open bt os sn True cfg files snaps = (Inr e, files)" "mt_ok bt ok (en_memtable e)"
      "mt_map bt (en_memtable e) = apply_log (with_offsets (log_end es) es') (log_map es)"
      "wal_ok (en_wal e) files" "w_open (en_wal e)" "\<not> en_closed e" "en_files e = files" "en_snaps e = snaps"
    using Open_on_file [OF d(1,3) _ assms(2,3) r, where files = files and cfg = cfg] d(2)
    by (auto simp: log_file_def)
  have "mt_map bt (en_memtable e) = f"
    using e(3) d(4) apply_log_strip [OF strip_with_offsets] by simp
  then show ?thesis using e assms(1) by (simp add: durable_def)
qed

lemma Open_fresh:
  assumes "sn_reads sn" "os_opens os"
  shows "\<exists>e files. Engine_Open bt os sn True cfg [] [] = (Inr e, files) \<and>
    mt_map bt (en_memtable e) = Map.empty \<and> durable bt ok e \<and> w_open (en_wal e)"
proof -
  have "on_disk [(''wal.log'', [])] [] Map.empty"
    by (simp add: on_disk_def log_file_def snapshot_covers_def snap_ok_def stored_def log_map_def
        exI [of _ "[]"])
  moreover have "Engine_Open bt os sn True cfg [] [] = Engine_Open bt os sn True cfg [(''wal.log'', [])] []"
    using assms LoadLatest_none [of "[]" sn]
    by (simp add: Engine_Open_def OpenWAL_def open_create_def Let_def sn_reads_def os_opens_def
        os_reads_def snap_ok_def stored_def)
  ultimately show ?thesis using Open_recovers [OF _ assms] by fastforce
qed

lemma durable_append:
  assumes d: "durable bt ok e" and r: "wal_room (en_wal e)" and wf: "wf_entry x"
    and a: "WAL_Append os (en_wal e) x (en_files e) = (None, wal, files)"
  shows "wal_ok wal files \<and> on_disk files (en_snaps e) ((mt_map bt (en_memtable e))(l_Key x \<mapsto> log_entry x))"
proof -
  obtain es es' where es: "log_file (en_files e) (es @ es')" "snapshot_covers (en_snaps e) es"
      "mt_map bt (en_memtable e) = log_map (es @ es')"
    using d by (auto simp: durable_def on_disk_def)
  have "w_open (en_wal e)" using append_in_place [OF a] r by (simp add: wal_room_def)
  then have "wal_holds (en_wal e) (en_files e) (es @ es')"
    using d es(1) by (simp add: wal_holds_iff durable_def)
  from wal.append_holds [OF this r wf a] have "wal_holds wal files (es @ es' @ [x])" by simp
  moreover have "log_map (es @ es' @ [x]) = (log_map (es @ es'))(l_Key x \<mapsto> log_entry x)" by simp
  ultimately show ?thesis
    using d es unfolding wal_holds_iff on_disk_def durable_def by metis
qed

lemma durable_put:
  assumes d: "durable bt ok e" and r: "wal_room (en_wal e)"
    and k: "int64_range now" "length k < 2 ^ 32" "length v < 2 ^ 32"
    and p: "Engine_Put bt os now k v e = (None, e')"
  shows "durable bt ok e' \<and> mt_map bt (en_memtable e') = (mt_map bt (en_memtable e))(k \<mapsto> mk_entry k v now False)"
proof -
  have "log_entry (put_record now k v) = mk_entry k v now False" "wf_entry (put_record now k v)"
    using k by (simp_all add: log_entry_def OpTypePut_def OpTypeDelete_def wf_entry_def)
  moreover have "mt_ok bt ok (en_memtable e)" using d by (simp add: durable_def)
  ultimately show ?thesis
    using Engine_Put_success [OF p] durable_append [OF d r, of "put_record now k v" os "en_wal e'" "en_files e'"]
    by (simp add: durable_def put_ok table.abs_put)
qed

lemma durable_delete:
  assumes d: "durable bt ok e" and r: "wal_room (en_wal e)"
    and k: "int64_range now" "length k < 2 ^ 32"
    and p: "Engine_Delete bt os now k e = (None, e')"
  shows "durable bt ok e' \<and> mt_map bt (en_memtable e') = (mt_map bt (en_memtable e))(k \<mapsto> mk_entry k [] now True)"
proof -
  have "log_entry (delete_record now k) = mk_entry k [] now True" "wf_entry (delete_record now k)"
    using k by (simp_all add: log_entry_def wf_entry_def)
  moreover have "mt_ok bt ok (en_memtable e)" using d by (simp add: durable_def)
  ultimately show ?thesis
    using Engine_Delete_success [OF p] durable_append [OF d r, of "delete_record now k" os "en_wal e'" "en_files e'"]
    by (simp add: durable_def delete_ok table.abs_del)
qed

text \<open>A snapshot whose table and log position belong together keeps the directory's meaning,
  whatever the outcome of writing it.\<close>

lemma on_disk_snapshot:
  assumes d: "on_disk files snaps f" and data: "valid_created (created data)" "\<forall>y\<in>stored snaps. created y < created data"
    and c: "log_file files (es @ es')" "f = log_map (es @ es')"
      "s_WALOffset (sd_Meta data) = log_end es" "lists_map (sd_Entries data) (log_map es)"
    and w: "Snapshot_Write sn data snaps = (r, snaps')"
  shows "on_disk files snaps' f"
proof -
  have ok: "snap_ok snaps" using d by (simp add: on_disk_def)
  have ok': "snap_ok snaps'" by (rule Snapshot_Write_ok [OF ok data(1) w])
  have "stored snaps' = stored snaps \<or> (data \<in> stored snaps' \<and> (\<forall>y\<in>stored snaps'. created y \<le> created data))"
  proof (cases r)
    case None
    then show ?thesis using Snapshot_Write_latest [OF ok data] w by blast
  next
    case (Some err)
    then show ?thesis using Snapshot_Write_failure [OF ok data] w data(2) by fastforce
  qed
  then show ?thesis
  proof
    assume "stored snaps' = stored snaps"
    then show ?thesis using d ok' by (simp add: on_disk_def snapshot_covers_def)
  next
    assume "data \<in> stored snaps' \<and> (\<forall>y\<in>stored snaps'. created y \<le> created data)"
    then have "snapshot_covers snaps' es" using c(3,4) by (auto simp: snapshot_covers_def)
    then show ?thesis using c(1,2) ok' by (auto simp: on_disk_def)
  qed
qed

lemma durable_snapshot:
  assumes d: "durable bt ok e" and o: "w_open (en_wal e)"
    and t: "valid_created t" "\<forall>y\<in>stored (en_snaps e). created y < t"
  shows "durable bt ok (takeSnapshot bt sn t e)"
proof -
  obtain es where es: "log_file (en_files e) es" "mt_map bt (en_memtable e) = log_map es"
    using d by (auto simp: durable_def on_disk_def)
  have "wal_holds (en_wal e) (en_files e) es" using d o es(1) by (simp add: wal_holds_iff durable_def)
  then have sz: "WAL_Size (en_wal e) = log_end es" by (rule wal.size_holds)
  have m: "mt_ok bt ok (en_memtable e)" using d by (simp add: durable_def)
  let ?data = "\<lparr>sd_Meta = \<lparr>s_CreatedAt = t, s_WALOffset = WAL_Size (en_wal e),
      s_EntryCount = int (length (Memtable_All bt (en_memtable e))), s_NodeID = c_NodeID (en_cfg e)\<rparr>,
      sd_Entries = Memtable_All bt (en_memtable e)\<rparr>"
  obtain r snaps' where w: "Snapshot_Write sn ?data (en_snaps e) = (r, snaps')" by (metis prod.exhaust)
  have "on_disk (en_files e) snaps' (mt_map bt (en_memtable e))"
    using d t es sz table.all_abs [OF m]
    by (intro on_disk_snapshot [OF _ _ _ _ _ _ _ w, where es = es and es' = "[]"])
      (auto simp: durable_def created_def)
  then show ?thesis
    using d w by (simp add: durable_def takeSnapshot_def write_snapshot_def Let_def)
qed

lemma takeSnapshot_sel [simp]:
  "en_wal (takeSnapshot bt sn t e) = en_wal e" "en_files (takeSnapshot bt sn t e) = en_files e"
  "en_memtable (takeSnapshot bt sn t e) = en_memtable e" "en_closed (takeSnapshot bt sn t e) = en_closed e"
  by (simp_all add: takeSnapshot_def write_snapshot_def Let_def split: prod.split)

end

section \<open>Runs of the engine\<close>

text \<open>
  The engine's atomic steps: successful writes that need no rotation of the log, writes that
  report an error before a byte of theirs reached the log (rejected ones included), reads,
  snapshots not interleaved with a writer and with a clock that advances, closing, and a crash
  followed by \<open>Open\<close> on what the directory holds. Keys and values are shorter than 4 GiB, times
  are \<open>int64\<close>. Left out are exactly the runs in which the directory and the table part: a write that
  rotates the log, a write that stops after some bytes or whose sync fails (the record is in the
  file, the table is not changed), a put that panics on a zero snapshot threshold, and a put that
  runs between the two reads of a snapshot.
\<close>

inductive engine_step :: "(Entry, 't) btree_ops \<Rightarrow> 't StorageEngine \<Rightarrow> 't StorageEngine \<Rightarrow> bool"
  for bt where
  step_put: "Engine_Put bt os now k v e = (None, e') \<Longrightarrow> wal_room (en_wal e) \<Longrightarrow> int64_range now \<Longrightarrow>
     length k < 2 ^ 32 \<Longrightarrow> length v < 2 ^ 32 \<Longrightarrow> engine_step bt e e'"
| step_put_failed: "Engine_Put bt os now k v e = (Some err, e') \<Longrightarrow> err \<noteq> ErrPanicDivide \<Longrightarrow> wal_room (en_wal e) \<Longrightarrow>
     os_write_stop os = Some 0 \<Longrightarrow> engine_step bt e e'"
| step_delete: "Engine_Delete bt os now k e = (None, e') \<Longrightarrow> wal_room (en_wal e) \<Longrightarrow> int64_range now \<Longrightarrow>
     length k < 2 ^ 32 \<Longrightarrow> engine_step bt e e'"
| step_delete_failed: "Engine_Delete bt os now k e = (Some err, e') \<Longrightarrow> wal_room (en_wal e) \<Longrightarrow>
     os_write_stop os = Some 0 \<Longrightarrow> engine_step bt e e'"
| step_get: "Engine_Get bt k e = (r, e') \<Longrightarrow> engine_step bt e e'"
| step_snapshot: "w_open (en_wal e) \<Longrightarrow> valid_created t \<Longrightarrow> (\<forall>y\<in>stored (en_snaps e). created y < t) \<Longrightarrow>
     engine_step bt e (takeSnapshot bt sn t e)"
| step_close: "Engine_Close bt os sn t e = (err, e') \<Longrightarrow> w_open (en_wal e) \<Longrightarrow> valid_created t \<Longrightarrow>
     (\<forall>y\<in>stored (en_snaps e). created y < t) \<Longrightarrow> engine_step bt e e'"
| step_crash: "Engine_Open bt os sn True cfg (en_files e) (en_snaps e) = (Inr e', files) \<Longrightarrow>
     sn_reads sn \<Longrightarrow> os_opens os \<Longrightarrow> engine_step bt e e'"

inductive engine_reach :: "(Entry, 't) btree_ops \<Rightarrow> 't StorageEngine \<Rightarrow> bool" for bt where
  reach_fresh: "Engine_Open bt os sn True cfg [] [] = (Inr e, files) \<Longrightarrow> sn_reads sn \<Longrightarrow> os_opens os \<Longrightarrow>
     engine_reach bt e"
| reach_step: "engine_reach bt e \<Longrightarrow> engine_step bt e e' \<Longrightarrow> engine_reach bt e'"

context entry_tree
begin

lemma append_nothing: "map_of fs p = Some c \<Longrightarrow> append_file p [] fs = fs"
  by (simp add: append_file_def AList.update_triv)

lemma durable_put_failed:
  assumes "durable bt ok e" "wal_room (en_wal e)" "os_write_stop os = Some 0"
    and "Engine_Put bt os now k v e = (Some err, e')" "err \<noteq> ErrPanicDivide"
  shows "durable bt ok e'"
  using assms
  by (auto simp: Engine_Put_def WAL_Append_def rotate_not_needed wal_room_def Let_def with_metrics_def
      durable_def wal_ok_def append_nothing split: if_splits)

lemma durable_delete_failed:
  assumes "durable bt ok e" "wal_room (en_wal e)" "os_write_stop os = Some 0"
    and "Engine_Delete bt os now k e = (Some err, e')"
  shows "durable bt ok e'"
  using assms
  by (auto simp: Engine_Delete_def WAL_Append_def rotate_not_needed wal_room_def Let_def with_metrics_def
      durable_def wal_ok_def append_nothing split: if_splits)

lemma durable_close:
  assumes d: "durable bt ok e" and o: "w_open (en_wal e)"
    and t: "valid_created t" "\<forall>y\<in>stored (en_snaps e). created y < t"
    and c: "Engine_Close bt os sn t e = (err, e')"
  shows "durable bt ok e'"
proof (cases "en_closed e")
  case False
  have "durable bt ok (takeSnapshot bt sn t (e\<lparr>en_closed := True\<rparr>))"
    by (rule durable_snapshot) (use d o t in \<open>simp_all add: durable_def\<close>)
  with c False show ?thesis
    by (auto simp: Engine_Close_def WAL_Close_def Let_def durable_def wal_ok_def split: if_splits)
qed (use c d in \<open>simp add: Engine_Close_def\<close>)

lemma durable_step: "engine_step bt e e' \<Longrightarrow> durable bt ok e \<Longrightarrow> durable bt ok e'"
proof (induction rule: engine_step.induct)
  case (step_get k e r e')
  then show ?case
    by (auto simp: Engine_Get_def with_metrics_def durable_def Let_def split: if_splits option.splits)
next
  case (step_crash os sn cfg e e' files)
  then have "on_disk (en_files e) (en_snaps e) (mt_map bt (en_memtable e))" by (simp add: durable_def)
  from Open_recovers [OF this step_crash(2,3), of cfg] step_crash(1) show ?case by auto
qed (auto dest: durable_put durable_delete intro: durable_snapshot durable_put_failed durable_delete_failed durable_close)

lemma durable_reach: "engine_reach bt e \<Longrightarrow> durable bt ok e"
proof (induction rule: engine_reach.induct)
  case (reach_fresh os sn cfg e files)
  from Open_fresh [OF reach_fresh(2,3), of cfg] reach_fresh(1) show ?case by auto
qed (auto dest: durable_step)

end


section \<open>Crashes, rotation and racing snapshots\<close>

context entry_tree
begin

text \<open>A crash while a record was being written leaves a strict prefix of it behind.\<close>

lemma Open_torn:
  assumes d: "durable bt ok e" "sn_reads sn" "os_opens os" and x: "wf_entry x" "n < length (encode_record x)"
  shows "if n = 17
    then \<exists>off. Engine_Open bt os sn True cfg (append_file ''wal.log'' (take n (encode_record x)) (en_files e)) (en_snaps e) =
           (Inl (ErrReplayWal (ErrReadPayload off)), append_file ''wal.log'' (take n (encode_record x)) (en_files e))
    else \<exists>e' files. Engine_Open bt os sn True cfg (append_file ''wal.log'' (take n (encode_record x)) (en_files e)) (en_snaps e) =
           (Inr e', files) \<and> mt_ok bt ok (en_memtable e') \<and> mt_map bt (en_memtable e') = mt_map bt (en_memtable e)"
proof -
  let ?files = "append_file ''wal.log'' (take n (encode_record x)) (en_files e)"
  obtain es es' where es: "snap_ok (en_snaps e)" "log_file (en_files e) (es @ es')" "snapshot_covers (en_snaps e) es"
      "mt_map bt (en_memtable e) = log_map (es @ es')"
    using d(1) by (auto simp: durable_def on_disk_def)
  have c: "map_of ?files ''wal.log'' = Some (encode_log es @ encode_log es' @ take n (encode_record x))"
    using es(2) by (simp add: map_of_append_file log_file_def)
  have "replay_loop AtEOF (encode_log es' @ take n (encode_record x)) (log_end es) [] =
      (if n = 17 then Inl (ErrReadPayload (log_end es + int (length (encode_log es'))))
       else Inr (with_offsets (log_end es) es'))"
    using es(2) x by (simp add: replay_loop_log replay_loop_torn log_file_def)
  then have r: "replay_loop AtEOF (drop (nat (log_end es)) (encode_log es @ encode_log es' @ take n (encode_record x)))
      (log_end es) [] = (if n = 17 then Inl (ErrReadPayload (log_end es + int (length (encode_log es'))))
       else Inr (with_offsets (log_end es) es'))"
    by (simp add: log_end_def)
  show ?thesis
    using Open_on_file [OF es(1,3) c d(2,3) r, of cfg] es(4) apply_log_strip [OF strip_with_offsets]
    by (auto split: if_splits)
qed

text \<open>A put that rotates the log leaves a file that holds only its own record, while the
  newest snapshot still refers to a position in the old file.\<close>

lemma put_rotates:
  assumes "durable bt ok e" "\<not> wal_room (en_wal e)" and p: "Engine_Put bt os now k v e = (None, e')"
  shows "map_of (en_files e') ''wal.log'' = Some (encode_record (put_record now k v))"
proof -
  have a: "WAL_Append os (en_wal e) (put_record now k v) (en_files e) = (None, en_wal e', en_files e')"
    using Engine_Put_success [OF p] by simp
  have path: "w_path (en_wal e) = ''wal.log''" using assms(1) by (simp add: durable_def wal_ok_def)
  obtain w1 fs1 where rot: "rotateIfNeeded os (en_wal e) (en_files e) = (None, w1, fs1)"
    using a by (auto simp: WAL_Append_def split: prod.splits option.splits)
  have "w_path w1 = ''wal.log'' \<and> map_of fs1 ''wal.log'' = Some []"
    using rotate_success [OF _ rot] assms(2) path by (auto simp: wal_room_def)
  moreover from a rot have "en_files e' = append_file (w_path w1) (encode_record (put_record now k v)) fs1"
    by (auto simp: WAL_Append_def Let_def split: if_splits option.splits)
  ultimately show ?thesis by (simp add: map_of_append_file)
qed

lemma Open_after_rotation:
  assumes d: "durable bt ok e" "\<not> wal_room (en_wal e)" and p: "Engine_Put bt os now k v e = (None, e')"
    and c: "snapshot_covers (en_snaps e) es" "log_end es = 0 \<or> 17 + length k + length v \<le> nat (log_end es)"
    and f: "sn_reads sn" "os_opens os'" and wf: "int64_range now" "length k < 2 ^ 32" "length v < 2 ^ 32"
  shows "\<exists>e'' files. Engine_Open bt os' sn True cfg (en_files e') (en_snaps e') = (Inr e'', files) \<and>
    mt_ok bt ok (en_memtable e'') \<and>
    mt_map bt (en_memtable e'') = (if log_end es = 0 then [k \<mapsto> mk_entry k v now False] else log_map es)"
proof -
  let ?x = "put_record now k v"
  have e': "map_of (en_files e') ''wal.log'' = Some (encode_record ?x)" "en_snaps e' = en_snaps e"
    using put_rotates [OF d p] Engine_Put_success [OF p] by simp_all
  have sn: "snap_ok (en_snaps e)" using d(1) by (simp add: durable_def on_disk_def)
  have es: "es = []" if "log_end es = 0"
    using that by (cases es) (simp_all add: log_end_def length_encode_record)
  have x: "wf_entry ?x" "log_entry ?x = mk_entry k v now False"
    using wf by (simp_all add: wf_entry_def log_entry_def OpTypePut_def OpTypeDelete_def)
  have le: "log_entry (?x\<lparr>l_Offset := 0\<rparr>) = mk_entry k v now False" using x(2) by simp
  show ?thesis
  proof (cases "log_end es = 0")
    case True
    have "replay_loop AtEOF (drop (nat (log_end es)) (encode_record ?x)) (log_end es) [] = Inr [?x\<lparr>l_Offset := 0\<rparr>]"
      using True replay_loop_record [OF x(1), of AtEOF "[]" 0 "[]"] by (simp add: replay_loop_end)
    from Open_on_file [OF sn c(1) e'(1) f this, of cfg] show ?thesis
      using True es [OF True] e'(2) le by (auto simp: log_map_def)
  next
    case False
    then have "drop (nat (log_end es)) (encode_record ?x) = []" using c(2) by (simp add: length_encode_record)
    then have "replay_loop AtEOF (drop (nat (log_end es)) (encode_record ?x)) (log_end es) [] = Inr []"
      by (simp add: replay_loop_end)
    from Open_on_file [OF sn c(1) e'(1) f this, of cfg] show ?thesis
      using False e'(2) by auto
  qed
qed

text \<open>A put that runs between the two reads of \<open>takeSnapshot\<close> is in neither part of what the
  snapshot saves.\<close>

lemma Open_after_race:
  assumes d: "durable bt ok e" "wal_room (en_wal e)" and p: "Engine_Put bt os now k v e = (None, e')"
    and wf: "int64_range now" "length k < 2 ^ 32" "length v < 2 ^ 32"
    and t: "valid_created t" "\<forall>y\<in>stored (en_snaps e). created y < t"
    and w: "e'' = write_snapshot sn t (Memtable_All bt (en_memtable e)) (WAL_Size (en_wal e')) e'"
    and ok: "sn_create_ok sn" "sn_encode_ok sn" "sn_sync_ok sn" "sn_rename_ok sn" "sn_reads sn" "os_opens os'"
  shows "\<exists>e3 files. Engine_Open bt os' sn True cfg (en_files e'') (en_snaps e'') = (Inr e3, files) \<and>
    mt_ok bt ok (en_memtable e3) \<and> mt_map bt (en_memtable e3) = mt_map bt (en_memtable e)"
proof -
  let ?data = "\<lparr>sd_Meta = \<lparr>s_CreatedAt = t, s_WALOffset = WAL_Size (en_wal e'),
      s_EntryCount = int (length (Memtable_All bt (en_memtable e))), s_NodeID = c_NodeID (en_cfg e')\<rparr>,
      sd_Entries = Memtable_All bt (en_memtable e)\<rparr>"
  have d': "durable bt ok e'" using durable_put [OF d wf p] by simp
  have m: "mt_ok bt ok (en_memtable e)" using d(1) by (simp add: durable_def)
  have e': "en_snaps e' = en_snaps e" and sz: "w_open (en_wal e')"
    using Engine_Put_success [OF p] d(2)
      append_in_place [of os "en_wal e" "put_record now k v" "en_files e" "en_wal e'" "en_files e'"]
    by (simp_all add: wal_room_def)
  obtain es where es: "log_file (en_files e') es" using d' by (auto simp: durable_def on_disk_def)
  have sz: "WAL_Size (en_wal e') = log_end es"
    using d' es sz by (intro wal.size_holds [of _ "en_files e'"]) (simp add: wal_holds_iff durable_def)
  have sn: "snap_ok (en_snaps e)" using d(1) by (simp add: durable_def on_disk_def)
  obtain snaps where wr: "Snapshot_Write sn ?data (en_snaps e) = (None, snaps)"
    using ok by (auto simp: Snapshot_Write_def Let_def pruneOld_def listSnapshots_def sn_reads_def)
  have e'': "en_files e'' = en_files e'" "en_snaps e'' = snaps"
    using w wr e' by (simp_all add: write_snapshot_def Let_def)
  have st: "?data \<in> stored snaps" "\<forall>y\<in>stored snaps. created y \<le> created ?data"
    using Snapshot_Write_latest [OF sn _ _ wr] t by (simp_all add: created_def)
  have snok: "snap_ok snaps" using Snapshot_Write_ok [OF sn _ wr] t by (simp add: created_def)
  have "LoadLatest sn snaps = Inr (Some ?data)"
    using ok st snok by (intro LoadLatest_latest) (simp_all add: sn_reads_def)
  moreover have "mt_map bt (restore_entries bt (Memtable_All bt (en_memtable e)) (NewMemtable bt)) = mt_map bt (en_memtable e)"
    unfolding restore_feed by (rule table.abs_feed_all [OF m])
  moreover have "OpenWAL os' ''wal.log'' (c_WALMaxSizeBytes cfg) (en_files e') =
      (Inr \<lparr>w_path = ''wal.log'', w_open = True, w_size = log_end es, w_maxSize = c_WALMaxSizeBytes cfg\<rparr>, en_files e')"
    using es ok by (simp add: OpenWAL_def os_opens_def os_reads_def open_create_def log_file_def log_end_def)
  moreover have "WAL_Replay os' \<lparr>w_path = ''wal.log'', w_open = True, w_size = log_end es, w_maxSize = c_WALMaxSizeBytes cfg\<rparr>
      (log_end es) (en_files e') = Inr []"
    using es ok by (auto simp: WAL_Replay_def os_opens_def os_reads_def log_file_def log_end_def replay_loop_end)
  ultimately show ?thesis
    using e'' sz by (simp add: Engine_Open_def replay_entries_def restore_feed table.good_feed table.good_new)
qed

end

end
