(* ===== verification/KV_Storage.thy ===== *)
theory KV_Storage
  imports KV_Engine
begin

text \<open>
  Properties of the storage stack (\<open>storage/\<close>): the table, the log, the snapshots and the
  engine, each at its interface, with the runs that witness their hypotheses. The B-tree is any
  implementation that satisfies the contract \<open>btree\<close>; witnesses use sorted lists.
\<close>

section \<open>A system without faults\<close>

definition os_fine :: "int \<Rightarrow> os_env" where
  "os_fine now = \<lparr>os_now = now, os_open_ok = True, os_stat_ok = True, os_close_ok = True, os_rename_ok = True,
     os_sync_ok = True, os_seek_ok = True, os_write_stop = None, os_read_end = AtEOF\<rparr>"

definition sn_fine :: snap_env where
  "sn_fine = \<lparr>sn_create_ok = True, sn_encode_ok = True, sn_sync_ok = True, sn_rename_ok = True,
     sn_glob_ok = True, sn_open_ok = True, sn_remove_ok = (\<lambda>_. True), sn_windows = False\<rparr>"

lemma fine_reads [simp]: "sn_reads sn_fine" "os_opens (os_fine t)" "os_reads (os_fine t)"
  by (simp_all add: sn_reads_def sn_fine_def os_opens_def os_reads_def os_fine_def)

lemma WAL_Append_fine:
  "w_open w \<Longrightarrow> wal_room w \<Longrightarrow>
   WAL_Append (os_fine t) w x fs =
     (None, w\<lparr>w_size := w_size w + int (length (encode_record x))\<rparr>, append_file (w_path w) (encode_record x) fs)"
  by (simp add: WAL_Append_def rotate_not_needed wal_room_def os_fine_def Let_def)

text \<open>A run: open on an empty directory, put \<open>a\<close>, delete \<open>a\<close>, put \<open>b\<close>.\<close>

definition demo_wal :: WAL where
  "demo_wal = \<lparr>w_path = ''wal.log'', w_open = True, w_size = 0, w_maxSize = 64 * 1024 * 1024\<rparr>"

definition demo0 :: "Entry slist StorageEngine" where
  "demo0 = \<lparr>en_cfg = DefaultConfig, en_wal = demo_wal, en_memtable = NewMemtable slist_ops, en_writeCount = 0,
     en_closed = False, en_pending = 0, en_metrics = [], en_files = [(''wal.log'', [])], en_snaps = []\<rparr>"

definition demo1 :: "Entry slist StorageEngine" where
  "demo1 = snd (Engine_Put slist_ops (os_fine 2) 2 ''a'' ''x'' demo0)"

definition demo2 :: "Entry slist StorageEngine" where
  "demo2 = snd (Engine_Delete slist_ops (os_fine 3) 3 ''a'' demo1)"

definition demo3 :: "Entry slist StorageEngine" where
  "demo3 = snd (Engine_Put slist_ops (os_fine 4) 4 ''b'' ''yz'' demo2)"

lemma demo0_open: "Engine_Open slist_ops (os_fine 1) sn_fine True DefaultConfig [] [] = (Inr demo0, [(''wal.log'', [])])"
  by (simp add: Engine_Open_def demo0_def demo_wal_def LoadLatest_def listSnapshots_def sn_fine_def OpenWAL_def
      os_fine_def open_create_def WAL_Replay_def replay_loop_end replay_entries_def DefaultConfig_def)

lemma demo1_put: "Engine_Put slist_ops (os_fine 2) 2 ''a'' ''x'' demo0 = (None, demo1)" "wal_room (en_wal demo0)"
  by (simp_all add: demo1_def Engine_Put_def demo0_def demo_wal_def WAL_Append_fine wal_room_def DefaultConfig_def Let_def)

lemma demo1_wal: "w_open (en_wal demo1)" "wal_room (en_wal demo1)" "\<not> en_closed demo1" "en_cfg demo1 = DefaultConfig"
    "en_writeCount demo1 = 1"
  by (simp_all add: demo1_def Engine_Put_def demo0_def demo_wal_def WAL_Append_fine wal_room_def DefaultConfig_def Let_def
      with_metrics_def length_encode_record)

lemma demo2_delete: "Engine_Delete slist_ops (os_fine 3) 3 ''a'' demo1 = (None, demo2)"
  using demo1_wal by (simp add: demo2_def Engine_Delete_def WAL_Append_fine Let_def)

lemma demo2_wal: "w_open (en_wal demo2)" "wal_room (en_wal demo2)" "\<not> en_closed demo2" "en_cfg demo2 = DefaultConfig"
    "en_writeCount demo2 = 1"
  using demo1_wal
  by (simp_all add: demo2_def demo1_def Engine_Delete_def Engine_Put_def demo0_def demo_wal_def WAL_Append_fine
      wal_room_def DefaultConfig_def Let_def with_metrics_def length_encode_record)

lemma demo3_put: "Engine_Put slist_ops (os_fine 4) 4 ''b'' ''yz'' demo2 = (None, demo3)"
  using demo2_wal by (simp add: demo3_def Engine_Put_def WAL_Append_fine Let_def DefaultConfig_def)

lemma demo_tables:
  "en_memtable demo1 = Memtable_Put slist_ops ''a'' ''x'' 2 (NewMemtable slist_ops)"
  "en_memtable demo2 = Memtable_Delete slist_ops ''a'' 3 (en_memtable demo1)"
  "en_memtable demo3 = Memtable_Put slist_ops ''b'' ''yz'' 4 (en_memtable demo2)"
  using Engine_Put_success [OF demo1_put(1)] Engine_Delete_success [OF demo2_delete] Engine_Put_success [OF demo3_put]
  by (simp_all add: demo0_def)

lemma int64_small: "int64_range 2" "int64_range 3" "int64_range 4"
  by (simp_all add: int64_range_def)

lemma demo_reach0: "engine_reach slist_ops demo0"
  by (rule reach_fresh [OF demo0_open]) simp_all

lemma demo_reach2: "engine_reach slist_ops demo2"
proof -
  have "engine_reach slist_ops demo1"
    by (rule reach_step [OF demo_reach0]) (rule step_put [OF demo1_put], simp_all add: int64_small)
  then show ?thesis
    by (rule reach_step) (rule step_delete [OF demo2_delete demo1_wal(2)], simp_all add: int64_small)
qed

lemma demo_reach: "engine_reach slist_ops demo3"
  by (rule reach_step [OF demo_reach2]) (rule step_put [OF demo3_put demo2_wal(2)], simp_all add: int64_small)

lemma demo_table: "Memtable_All slist_ops (en_memtable demo3) = [mk_entry ''a'' [] 3 True, mk_entry ''b'' ''yz'' 4 False]"
  unfolding demo_tables by code_simp

section \<open>Crash recovery\<close>

text \<open>
  C1. Crash recovery: in every state that the engine reaches from an empty directory through
  successful puts and deletes that do not rotate the log, writes that fail before a byte reaches
  the log, gets, snapshots not interleaved with a writer, closing, and earlier crashes, opening a
  new engine on what the directory holds succeeds and gives a table with exactly the same
  entries, tombstones and timestamps included. States after a rotation, after a short or unsynced
  write, and after a snapshot that raced with a put are not among them.
\<close>

theorem crash_recovery:
  assumes "btree bt entryLess ok" "engine_reach bt e" "sn_reads sn" "os_opens os"
  shows "\<exists>e'. Engine_Open bt os sn True cfg (en_files e) (en_snaps e) = (Inr e', en_files e) \<and>
    Memtable_All bt (en_memtable e') = Memtable_All bt (en_memtable e) \<and>
    (\<forall>k. Memtable_Get bt (en_memtable e') k = Memtable_Get bt (en_memtable e) k)"
proof -
  have t: "entry_tree bt ok" using assms(1) by (rule entry_tree.intro)
  have d: "durable bt ok e" by (rule entry_tree.durable_reach [OF t assms(2)])
  then have "on_disk (en_files e) (en_snaps e) (mt_map bt (en_memtable e))" by (simp add: durable_def)
  from entry_tree.Open_recovers [OF t this assms(3,4), of cfg]
  obtain e' where e': "Engine_Open bt os sn True cfg (en_files e) (en_snaps e) = (Inr e', en_files e)"
      "mt_map bt (en_memtable e') = mt_map bt (en_memtable e)" "durable bt ok e'"
    by blast
  have m: "mt_ok bt ok (en_memtable e)" and m': "mt_ok bt ok (en_memtable e')"
    using d e'(3) by (simp_all add: durable_def)
  show ?thesis
    using e'(1) entry_tree.all_same [OF t m' m e'(2)] entry_tree.get_same [OF t m' m e'(2)] by simp
qed

theorem crash_recovery_witness:
  "\<exists>e'. Engine_Open slist_ops (os_fine 5) sn_fine True DefaultConfig (en_files demo3) (en_snaps demo3) =
     (Inr e', en_files demo3) \<and>
   Memtable_All slist_ops (en_memtable e') = [mk_entry ''a'' [] 3 True, mk_entry ''b'' ''yz'' 4 False]"
  using crash_recovery [OF slist.btree_axioms demo_reach fine_reads(1,2), of 5 DefaultConfig] demo_table by auto


text \<open>
  C3. Torn writes: when the process dies after any number of bytes of a record except exactly its
  17 header bytes, replay stops in front of the torn record and the recovered table is the one
  from before that write.
\<close>

theorem torn_write_recovery:
  assumes "btree bt entryLess ok" "engine_reach bt e" "sn_reads sn" "os_opens os"
    and "wf_entry x" "n < length (encode_record x)" "n \<noteq> recordHeaderSize"
  shows "\<exists>e' files. Engine_Open bt os sn True cfg
      (append_file ''wal.log'' (take n (encode_record x)) (en_files e)) (en_snaps e) = (Inr e', files) \<and>
    Memtable_All bt (en_memtable e') = Memtable_All bt (en_memtable e)"
proof -
  have t: "entry_tree bt ok" using assms(1) by (rule entry_tree.intro)
  have d: "durable bt ok e" by (rule entry_tree.durable_reach [OF t assms(2)])
  then have m: "mt_ok bt ok (en_memtable e)" by (simp add: durable_def)
  show ?thesis
    using entry_tree.Open_torn [OF t d assms(3,4,5,6), of cfg] assms(7) entry_tree.all_same [OF t _ m]
    by (auto simp: recordHeaderSize_def)
qed

theorem torn_write_recovery_witness:
  "\<exists>e' files. Engine_Open slist_ops (os_fine 5) sn_fine True DefaultConfig
      (append_file ''wal.log'' (take 18 (encode_record (put_record 5 ''c'' ''d''))) (en_files demo3)) (en_snaps demo3) =
        (Inr e', files) \<and>
    Memtable_All slist_ops (en_memtable e') = [mk_entry ''a'' [] 3 True, mk_entry ''b'' ''yz'' 4 False]"
proof -
  have "wf_entry (put_record 5 ''c'' ''d'')" by (simp add: wf_entry_def int64_range_def)
  from torn_write_recovery [OF slist.btree_axioms demo_reach fine_reads(1,2) this, of 18 5 DefaultConfig]
  show ?thesis by (simp add: length_encode_record recordHeaderSize_def demo_table)
qed

text \<open>
  C35. A cut exactly after the header is not skipped, although the comment on \<open>Replay\<close> says that
  truncated records at the end are silently skipped: if the process dies when the 17 header bytes
  of a record with a non-empty payload are on disk and nothing of the payload is, \<open>io.ReadFull\<close>
  reports \<open>io.EOF\<close> for the payload, replay returns an error, and the engine does not open.
\<close>

theorem torn_header_blocks_open:
  assumes "btree bt entryLess ok" "engine_reach bt e" "sn_reads sn" "os_opens os"
    and "wf_entry x" "l_Key x \<noteq> []"
  shows "\<exists>off files. Engine_Open bt os sn True cfg
      (append_file ''wal.log'' (take recordHeaderSize (encode_record x)) (en_files e)) (en_snaps e) =
    (Inl (ErrReplayWal (ErrReadPayload off)), files)"
proof -
  have t: "entry_tree bt ok" using assms(1) by (rule entry_tree.intro)
  have d: "durable bt ok e" by (rule entry_tree.durable_reach [OF t assms(2)])
  have "17 < length (encode_record x)" using assms(6) by (simp add: length_encode_record)
  from entry_tree.Open_torn [OF t d assms(3,4,5) this, of cfg] show ?thesis
    by (auto simp: recordHeaderSize_def)
qed

theorem torn_header_blocks_open_witness:
  "\<exists>off files. Engine_Open slist_ops (os_fine 5) sn_fine True DefaultConfig
      (append_file ''wal.log'' (take recordHeaderSize (encode_record (put_record 5 ''c'' ''d''))) (en_files demo3))
      (en_snaps demo3) = (Inl (ErrReplayWal (ErrReadPayload off)), files)"
proof -
  have "wf_entry (put_record 5 ''c'' ''d'')" by (simp add: wf_entry_def int64_range_def)
  from torn_header_blocks_open [OF slist.btree_axioms demo_reach fine_reads(1,2) this, of 5 DefaultConfig]
  show ?thesis by simp
qed

section \<open>Lost writes\<close>

text \<open>
  C34. A put that races with a snapshot is lost, although \<open>Put\<close> is documented to store durably and
  the snapshot's \<open>WALOffset\<close> as a position before which every entry is reflected: \<open>takeSnapshot\<close>
  reads the table and then the log size, and writers do not take \<open>e.mu\<close>. If an acknowledged put
  runs between the two reads, the snapshot holds neither the entry nor a position in front of it;
  after a crash the recovered table is the one from before the put.
\<close>

theorem racing_snapshot_loses_put:
  assumes "btree bt entryLess ok" "engine_reach bt e" "wal_room (en_wal e)"
    and "Engine_Put bt os now k v e = (None, e')"
    and "int64_range now" "length k < 2 ^ 32" "length v < 2 ^ 32"
    and "valid_created t" "\<forall>y\<in>stored (en_snaps e). created y < t"
    and "e'' = write_snapshot sn t (Memtable_All bt (en_memtable e)) (WAL_Size (en_wal e')) e'"
    and "sn_create_ok sn" "sn_encode_ok sn" "sn_sync_ok sn" "sn_rename_ok sn" "sn_reads sn" "os_opens os'"
  shows "\<exists>e3 files. Engine_Open bt os' sn True cfg (en_files e'') (en_snaps e'') = (Inr e3, files) \<and>
    Memtable_All bt (en_memtable e3) = Memtable_All bt (en_memtable e)"
proof -
  have t: "entry_tree bt ok" using assms(1) by (rule entry_tree.intro)
  have d: "durable bt ok e" by (rule entry_tree.durable_reach [OF t assms(2)])
  then have m: "mt_ok bt ok (en_memtable e)" by (simp add: durable_def)
  show ?thesis
    using entry_tree.Open_after_race [OF t d assms(3-16), of cfg] entry_tree.all_same [OF t _ m] by blast
qed

theorem racing_snapshot_loses_put_witness:
  "\<exists>e1 e2 e3 files. Engine_Put slist_ops (os_fine 4) 4 ''b'' ''yz'' demo2 = (None, e1) \<and>
     Memtable_Get slist_ops (en_memtable e1) ''b'' = Some (mk_entry ''b'' ''yz'' 4 False) \<and>
     e2 = write_snapshot sn_fine 7 (Memtable_All slist_ops (en_memtable demo2)) (WAL_Size (en_wal e1)) e1 \<and>
     Engine_Open slist_ops (os_fine 8) sn_fine True DefaultConfig (en_files e2) (en_snaps e2) = (Inr e3, files) \<and>
     Memtable_All slist_ops (en_memtable e3) = [mk_entry ''a'' [] 3 True]"
proof -
  have snaps: "en_snaps demo2 = []"
    using Engine_Delete_success [OF demo2_delete] Engine_Put_success [OF demo1_put(1)] by (simp add: demo0_def)
  let ?e2 = "write_snapshot sn_fine 7 (Memtable_All slist_ops (en_memtable demo2)) (WAL_Size (en_wal demo3)) demo3"
  have "Memtable_All slist_ops (en_memtable demo2) = [mk_entry ''a'' [] 3 True]"
    "Memtable_Get slist_ops (en_memtable demo3) ''b'' = Some (mk_entry ''b'' ''yz'' 4 False)"
    unfolding demo_tables by code_simp+
  moreover have "\<exists>e3 files. Engine_Open slist_ops (os_fine 8) sn_fine True DefaultConfig (en_files ?e2) (en_snaps ?e2) = (Inr e3, files) \<and>
    Memtable_All slist_ops (en_memtable e3) = Memtable_All slist_ops (en_memtable demo2)"
    by (rule racing_snapshot_loses_put [OF slist.btree_axioms demo_reach2 demo2_wal(2) demo3_put])
      (simp_all add: int64_small snaps stored_def sn_fine_def valid_created_def sn_reads_def)
  ultimately show ?thesis using demo3_put by auto
qed


text \<open>A run with a log limited to 19 bytes: put \<open>a\<close>, snapshot, put \<open>c\<close> with a rotation.\<close>

definition rot0 :: "Entry slist StorageEngine" where
  "rot0 = demo0\<lparr>en_cfg := DefaultConfig\<lparr>c_WALMaxSizeBytes := 19\<rparr>, en_wal := demo_wal\<lparr>w_maxSize := 19\<rparr>\<rparr>"

definition rot1 :: "Entry slist StorageEngine" where
  "rot1 = snd (Engine_Put slist_ops (os_fine 2) 2 ''a'' ''x'' rot0)"

definition rot2 :: "Entry slist StorageEngine" where
  "rot2 = takeSnapshot slist_ops sn_fine 7 rot1"

definition rot3 :: "Entry slist StorageEngine" where
  "rot3 = snd (Engine_Put slist_ops (os_fine 8) 8 ''c'' ''d'' rot2)"

lemma rot0_open: "Engine_Open slist_ops (os_fine 1) sn_fine True (DefaultConfig\<lparr>c_WALMaxSizeBytes := 19\<rparr>) [] [] =
    (Inr rot0, [(''wal.log'', [])])"
  by (simp add: Engine_Open_def rot0_def demo0_def demo_wal_def LoadLatest_def listSnapshots_def sn_fine_def OpenWAL_def
      os_fine_def open_create_def WAL_Replay_def replay_loop_end replay_entries_def DefaultConfig_def)

lemma rot1_put: "Engine_Put slist_ops (os_fine 2) 2 ''a'' ''x'' rot0 = (None, rot1)" "wal_room (en_wal rot0)"
  by (simp_all add: rot1_def Engine_Put_def rot0_def demo0_def demo_wal_def WAL_Append_fine wal_room_def DefaultConfig_def Let_def)

lemma rot1_sel:
  "en_wal rot1 = demo_wal\<lparr>w_size := 19, w_maxSize := 19\<rparr>" "en_snaps rot1 = []" "\<not> en_closed rot1"
  "c_SnapshotThreshold (en_cfg rot1) = 10000" "en_writeCount rot1 = 1"
  "en_memtable rot1 = Memtable_Put slist_ops ''a'' ''x'' 2 (NewMemtable slist_ops)"
  "en_files rot1 = [(''wal.log'', encode_record (put_record 2 ''a'' ''x''))]"
  by (simp_all add: rot1_def Engine_Put_def rot0_def demo0_def demo_wal_def WAL_Append_fine wal_room_def DefaultConfig_def
      Let_def with_metrics_def length_encode_record append_file_def)

definition rot_snap :: SnapshotData where
  "rot_snap = \<lparr>sd_Meta = \<lparr>s_CreatedAt = 7, s_WALOffset = 19, s_EntryCount = 1, s_NodeID = c_NodeID (en_cfg rot1)\<rparr>,
     sd_Entries = [mk_entry ''a'' ''x'' 2 False]\<rparr>"

lemma rot2_sel:
  "en_wal rot2 = en_wal rot1" "en_files rot2 = en_files rot1" "en_closed rot2 = en_closed rot1"
  "en_cfg rot2 = en_cfg rot1" "stored (en_snaps rot2) = {rot_snap}"
proof -
  have all: "Memtable_All slist_ops (en_memtable rot1) = [mk_entry ''a'' ''x'' 2 False]"
    unfolding rot1_sel by code_simp
  have data: "write_snapshot sn_fine 7 (Memtable_All slist_ops (en_memtable rot1)) (WAL_Size (en_wal rot1)) rot1 =
      rot1\<lparr>en_snaps := snd (Snapshot_Write sn_fine rot_snap [])\<rparr>"
    using rot1_sel(1,2) by (simp add: all write_snapshot_def rot_snap_def WAL_Size_def demo_wal_def Let_def split: prod.split)
  then show "en_wal rot2 = en_wal rot1" "en_files rot2 = en_files rot1" "en_closed rot2 = en_closed rot1" "en_cfg rot2 = en_cfg rot1"
    by (simp_all add: rot2_def takeSnapshot_def Let_def)
  have v: "valid_created (created rot_snap)" by (simp add: valid_created_def created_def rot_snap_def)
  have w: "Snapshot_Write sn_fine rot_snap [] = (None, snd (Snapshot_Write sn_fine rot_snap []))"
    by (simp add: Snapshot_Write_def Let_def pruneOld_def listSnapshots_def sn_fine_def)
  have "stored (snd (Snapshot_Write sn_fine rot_snap [])) \<subseteq> {rot_snap}"
    using Snapshot_Write_stored [OF _ v w] by (auto simp: snap_ok_def stored_def)
  moreover have "rot_snap \<in> stored (snd (Snapshot_Write sn_fine rot_snap []))"
    using Snapshot_Write_latest [OF _ v _ w] by (simp add: snap_ok_def stored_def)
  ultimately show "stored (en_snaps rot2) = {rot_snap}"
    using data by (auto simp: rot2_def takeSnapshot_def Let_def)
qed

lemma rot2_reach: "engine_reach slist_ops rot2"
proof -
  have "engine_reach slist_ops rot0" by (rule reach_fresh [OF rot0_open]) simp_all
  then have "engine_reach slist_ops rot1"
    by (rule reach_step) (rule step_put [OF rot1_put], simp_all add: int64_small)
  then show ?thesis
    unfolding rot2_def by (rule reach_step) (rule step_snapshot, simp_all add: rot1_sel demo_wal_def valid_created_def stored_def)
qed

lemma rot3_put: "Engine_Put slist_ops (os_fine 8) 8 ''c'' ''d'' rot2 = (None, rot3)"
  using rot2_sel rot1_sel
  by (simp add: rot3_def Engine_Put_def WAL_Append_def rotateIfNeeded_def demo_wal_def os_fine_def Let_def)

text \<open>
  C33. Rotation loses acknowledged writes, against the same two comments: the snapshot records a
  byte position in the old \<open>wal.log\<close>. After a put has rotated the log, \<open>Open\<close> seeks to that
  position in the new file; whenever the new record ends in front of it, the put is not replayed
  and the recovered table is the snapshot's.
\<close>

theorem rotation_loses_put:
  assumes "btree bt entryLess ok" "engine_reach bt e" "\<not> wal_room (en_wal e)"
    and "Engine_Put bt os now k v e = (None, e')"
    and "s \<in> stored (en_snaps e)" "\<forall>y\<in>stored (en_snaps e). created y \<le> created s"
    and "int (17 + length k + length v) \<le> s_WALOffset (sd_Meta s)"
    and "int64_range now" "length k < 2 ^ 32" "length v < 2 ^ 32" "sn_reads sn" "os_opens os'"
  shows "\<exists>e'' files. Engine_Open bt os' sn True cfg (en_files e') (en_snaps e') = (Inr e'', files) \<and>
    Memtable_All bt (en_memtable e'') = sd_Entries s"
proof -
  have t: "entry_tree bt ok" using assms(1) by (rule entry_tree.intro)
  have d: "durable bt ok e" by (rule entry_tree.durable_reach [OF t assms(2)])
  then obtain es where c: "snapshot_covers (en_snaps e) es" by (auto simp: durable_def on_disk_def)
  have s: "s_WALOffset (sd_Meta s) = log_end es" "lists_map (sd_Entries s) (log_map es)"
    using covers_latest [OF c assms(5,6)] by simp_all
  then have "17 + length k + length v \<le> nat (log_end es)" "log_end es \<noteq> 0" using assms(7) by linarith+
  with entry_tree.Open_after_rotation [OF t d assms(3,4) c _ assms(11,12,8,9,10), of cfg]
  obtain e'' files where e'': "Engine_Open bt os' sn True cfg (en_files e') (en_snaps e') = (Inr e'', files)"
      "mt_ok bt ok (en_memtable e'')" "mt_map bt (en_memtable e'') = log_map es"
    by auto
  have "Memtable_All bt (en_memtable e'') = sd_Entries s"
    using entry_tree.all_lists [OF t e''(2)] e''(3) s(2) lists_map_eq by metis
  with e''(1) show ?thesis by blast
qed

theorem rotation_loses_put_witness:
  "\<exists>e' e'' files. Engine_Put slist_ops (os_fine 8) 8 ''c'' ''d'' rot2 = (None, e') \<and>
    Engine_Open slist_ops (os_fine 9) sn_fine True DefaultConfig (en_files e') (en_snaps e') = (Inr e'', files) \<and>
    Memtable_All slist_ops (en_memtable e'') = [mk_entry ''a'' ''x'' 2 False]"
proof -
  have "\<exists>e'' files. Engine_Open slist_ops (os_fine 9) sn_fine True DefaultConfig (en_files rot3) (en_snaps rot3) = (Inr e'', files) \<and>
    Memtable_All slist_ops (en_memtable e'') = sd_Entries rot_snap"
    by (rule rotation_loses_put [OF slist.btree_axioms rot2_reach _ rot3_put])
      (simp_all add: rot2_sel rot1_sel wal_room_def rot_snap_def int64_range_def)
  then show ?thesis using rot3_put by (auto simp: rot_snap_def)
qed

end
