(* ===== verification/KV_StorageOps.thy ===== *)
theory KV_StorageOps
  imports KV_Storage
begin

text \<open>
  Properties of the single operations of the storage stack: reads after writes, failures, range
  scans, the accounting of the table, the log's round trip and snapshot retention.
\<close>

lemma sint_word_of_int: "- (2 ^ 63) \<le> z \<Longrightarrow> z < 2 ^ 63 \<Longrightarrow> sint (word_of_int z :: 64 word) = z"
  by (simp add: sint_sbintrunc' signed_take_bit_int_eq_self)

section \<open>Every run of the table\<close>

text \<open>What \<open>Open\<close> loads: the entries of the latest snapshot and the records replayed after them.\<close>

definition opened_from ::
  "os_env \<Rightarrow> snap_env \<Rightarrow> Config \<Rightarrow> bytes dir \<Rightarrow> snap_file dir \<Rightarrow> Entry list \<times> LogEntry list" where
  "opened_from os sn cfg files snaps =
     (case LoadLatest sn snaps of
        Inl err \<Rightarrow> ([], [])
      | Inr snap \<Rightarrow>
          let walOffset = (case snap of None \<Rightarrow> 0 | Some s \<Rightarrow> s_WALOffset (sd_Meta s));
              entries = (case snap of None \<Rightarrow> [] | Some s \<Rightarrow> sd_Entries s)
          in case OpenWAL os ''wal.log'' (c_WALMaxSizeBytes cfg) files of
               (Inl err, files1) \<Rightarrow> (entries, [])
             | (Inr wal, files1) \<Rightarrow>
                 (case WAL_Replay os wal walOffset files1 of
                    Inl err \<Rightarrow> (entries, [])
                  | Inr records \<Rightarrow> (entries, records)))"

definition entry_bytes :: "Entry list \<Rightarrow> nat" where
  "entry_bytes es = sum_list (map (\<lambda>e. length (e_Key e) + length (e_Value e)) es)"

definition record_bytes :: "LogEntry list \<Rightarrow> nat" where
  "record_bytes es = sum_list (map (\<lambda>e. length (l_Key e) + length (l_Value e)) es)"

text \<open>
  \<open>engine_any bt n b e\<close>: \<open>e\<close> is a state of an engine that was opened on any files whatever and
  then ran any operations with any outcome (rotations, short writes, failed syncs, failed
  operations, snapshots of whatever was read, closing included), where \<open>n\<close> counts the entries
  loaded and the writes tried and \<open>b\<close> the bytes of their keys and values.
\<close>

inductive engine_any :: "(Entry, 't) btree_ops \<Rightarrow> nat \<Rightarrow> nat \<Rightarrow> 't StorageEngine \<Rightarrow> bool" for bt where
  any_open: "Engine_Open bt os sn mk cfg files snaps = (Inr e, files') \<Longrightarrow>
     opened_from os sn cfg files snaps = (es, rs) \<Longrightarrow>
     engine_any bt (length es + length rs) (entry_bytes es + record_bytes rs) e"
| any_put: "engine_any bt n b e \<Longrightarrow> Engine_Put bt os now k v e = (r, e') \<Longrightarrow>
     engine_any bt (Suc n) (b + length k + length v) e'"
| any_delete: "engine_any bt n b e \<Longrightarrow> Engine_Delete bt os now k e = (r, e') \<Longrightarrow>
     engine_any bt (Suc n) (b + length k) e'"
| any_get: "engine_any bt n b e \<Longrightarrow> Engine_Get bt k e = (res, e') \<Longrightarrow> engine_any bt n b e'"
| any_snapshot: "engine_any bt n b e \<Longrightarrow> engine_any bt n b (write_snapshot sn t es off e)"
| any_close: "engine_any bt n b e \<Longrightarrow> Engine_Close bt os sn t e = (r, e') \<Longrightarrow> engine_any bt n b e'"

lemma Open_memtable:
  "Engine_Open bt os sn mk cfg files snaps = (Inr e, files') \<Longrightarrow> opened_from os sn cfg files snaps = (es, rs) \<Longrightarrow>
   en_memtable e = replay_entries bt rs (restore_entries bt es (NewMemtable bt))"
  by (auto simp: Engine_Open_def opened_from_def Let_def restore_entries_def
      split: if_splits sum.splits option.splits prod.splits)

lemma Engine_Put_table:
  "Engine_Put bt os now k v e = (r, e') \<Longrightarrow>
   en_memtable e' = en_memtable e \<or> en_memtable e' = Memtable_Put bt k v now (en_memtable e)"
  by (auto simp: Engine_Put_def Let_def with_metrics_def split: if_splits prod.splits option.splits)

lemma Engine_Delete_table:
  "Engine_Delete bt os now k e = (r, e') \<Longrightarrow>
   en_memtable e' = en_memtable e \<or> en_memtable e' = Memtable_Delete bt k now (en_memtable e)"
  by (auto simp: Engine_Delete_def Let_def with_metrics_def split: if_splits prod.splits option.splits)

section \<open>Reads after writes\<close>

context entry_tree
begin

lemma engine_put_get:
  assumes "mt_ok bt ok (en_memtable e)" "Engine_Put bt os now k v e = (None, e')"
  shows "fst (Engine_Get bt k' e') =
    (if k' = k then Inr \<lparr>v_Data = v, v_Timestamp = now\<rparr> else fst (Engine_Get bt k' e))"
  using Engine_Put_success [OF assms(2)] table.get_put [OF assms(1), of k v now k']
  by (simp add: Engine_Get_def Let_def split: option.split)

lemma engine_delete_get:
  assumes "mt_ok bt ok (en_memtable e)" "Engine_Delete bt os now k e = (None, e')"
  shows "fst (Engine_Get bt k' e') = (if k' = k then Inl ErrKeyNotFound else fst (Engine_Get bt k' e))"
  using Engine_Delete_success [OF assms(2)] table.get_del [OF assms(1), of k now k']
  by (simp add: Engine_Get_def Let_def split: option.split)

lemma scan_lists_live:
  assumes m: "mt_ok bt ok m"
  shows "sorted_wrt entryLess (Memtable_Scan bt m a b)"
    "set (Memtable_Scan bt m a b) = {x. Memtable_Get bt m (e_Key x) = Some x \<and> a \<le> e_Key x \<and> e_Key x < b}"
proof -
  have l: "lists_map (Memtable_All bt m) (mt_map bt m)" by (rule table.all_abs [OF m])
  show "sorted_wrt entryLess (Memtable_Scan bt m a b)"
    using l by (simp add: table.scan_all [OF m] lists_map_def sorted_wrt_filter)
  have "Memtable_Get bt m (e_Key x) = Some x \<longleftrightarrow> mt_map bt m (e_Key x) = Some x \<and> \<not> e_Tombstone x" for x
    by (auto simp: table.get_abs [OF m] live_lookup_def split: option.split)
  moreover have "mt_map bt m (e_Key x) = Some x \<longleftrightarrow> x \<in> set (Memtable_All bt m)" for x
    using l by (simp add: lists_map_def)
  ultimately show "set (Memtable_Scan bt m a b) = {x. Memtable_Get bt m (e_Key x) = Some x \<and> a \<le> e_Key x \<and> e_Key x < b}"
    by (auto simp: table.scan_all [OF m])
qed

lemma size_put:
  "mt_ok bt ok m \<Longrightarrow> m_size (Memtable_Put bt k v ts m) =
     m_size m + word_of_nat (length k + length v) -
     word_of_int (case mt_map bt m k of None \<Rightarrow> 0 | Some e \<Rightarrow> int (length (e_Key e) + length (e_Value e)))"
  by (simp add: mt_ok_def Memtable_Put_def Let_def discount_sel)

lemma size_delete:
  "mt_ok bt ok m \<Longrightarrow> m_size (Memtable_Delete bt k ts m) =
     m_size m -
     word_of_int (case mt_map bt m k of None \<Rightarrow> 0 | Some e \<Rightarrow> int (length (e_Key e) + length (e_Value e)))"
  by (simp add: mt_ok_def Memtable_Delete_def Let_def discount_sel)

lemma live_bytes_put:
  "mt_ok bt ok m \<Longrightarrow> live_bytes bt (Memtable_Put bt k v ts m) =
     live_bytes bt m + int (length k + length v) - (case mt_map bt m k of None \<Rightarrow> 0 | Some e \<Rightarrow> weight e)"
  by (simp add: mt_ok_def live_bytes_def Memtable_Put_def Let_def discount_sel sum_items_insert mt_map_def weight_def)

lemma live_bytes_delete:
  "mt_ok bt ok m \<Longrightarrow> live_bytes bt (Memtable_Delete bt k ts m) =
     live_bytes bt m - (case mt_map bt m k of None \<Rightarrow> 0 | Some e \<Rightarrow> weight e)"
  by (simp add: mt_ok_def live_bytes_def Memtable_Delete_def Let_def discount_sel sum_items_insert mt_map_def weight_def)

lemma mt_map_key: "mt_ok bt ok m \<Longrightarrow> mt_map bt m k = Some e \<Longrightarrow> e_Key e = k"
  by (simp add: mt_ok_def mt_map_iff)

lemma size_drifts:
  assumes m: "mt_ok bt ok m" and g: "Memtable_Get bt m k = Some x"
  shows "m_size (Memtable_Delete bt k t' (Memtable_Delete bt k t m)) =
      m_size m - word_of_nat (2 * length k + length (e_Value x))"
    "live_bytes bt (Memtable_Delete bt k t' (Memtable_Delete bt k t m)) =
      live_bytes bt m - int (length k + length (e_Value x))"
proof -
  have x: "mt_map bt m k = Some x" "\<not> e_Tombstone x"
    using g table.get_abs [OF m, of k] by (auto simp: live_lookup_def split: option.splits if_splits)
  have d: "mt_ok bt ok (Memtable_Delete bt k t m)" by (rule delete_ok [OF m])
  have t: "mt_map bt (Memtable_Delete bt k t m) k = Some (mk_entry k [] t True)" by (simp add: table.abs_del [OF m])
  show "m_size (Memtable_Delete bt k t' (Memtable_Delete bt k t m)) =
      m_size m - word_of_nat (2 * length k + length (e_Value x))"
    using x t mt_map_key [OF m x(1)] by (simp add: size_delete [OF d] size_delete [OF m])
  show "live_bytes bt (Memtable_Delete bt k t' (Memtable_Delete bt k t m)) =
      live_bytes bt m - int (length k + length (e_Value x))"
    using x t mt_map_key [OF m x(1)] by (simp add: live_bytes_delete [OF d] live_bytes_delete [OF m] weight_def)
qed

text \<open>The bytes of the stored values, and how the writers change them.\<close>

definition value_bytes :: "'t Memtable \<Rightarrow> int" where
  "value_bytes m = sum_list (map (\<lambda>e. int (length (e_Value e))) (items (m_tree m)))"

lemma value_bytes_put:
  "mt_ok bt ok m \<Longrightarrow> value_bytes (Memtable_Put bt k v ts m) =
     value_bytes m + int (length v) - (case mt_map bt m k of None \<Rightarrow> 0 | Some e \<Rightarrow> int (length (e_Value e)))"
  by (simp add: mt_ok_def value_bytes_def Memtable_Put_def Let_def discount_sel sum_items_insert mt_map_def)

lemma value_bytes_delete:
  "mt_ok bt ok m \<Longrightarrow> value_bytes (Memtable_Delete bt k ts m) =
     value_bytes m - (case mt_map bt m k of None \<Rightarrow> 0 | Some e \<Rightarrow> int (length (e_Value e)))"
  by (simp add: mt_ok_def value_bytes_def Memtable_Delete_def Let_def discount_sel sum_items_insert mt_map_def)

lemma length_insert_le: "ok t \<Longrightarrow> length (items (bt_ReplaceOrInsert bt t x)) \<le> Suc (length (items t))"
  using length_items_insert [of t x] by (auto split: option.splits)

lemma length_put:
  "mt_ok bt ok m \<Longrightarrow> length (items (m_tree (Memtable_Put bt k v ts m))) \<le> Suc (length (items (m_tree m)))"
  by (simp add: mt_ok_def Memtable_Put_def Let_def discount_sel length_insert_le)

lemma length_delete:
  "mt_ok bt ok m \<Longrightarrow> length (items (m_tree (Memtable_Delete bt k ts m))) \<le> Suc (length (items (m_tree m)))"
  by (simp add: mt_ok_def Memtable_Delete_def Let_def discount_sel length_insert_le)

text \<open>After \<open>n\<close> writes with \<open>b\<close> bytes of keys and values: at most \<open>n\<close> entries, and \<open>m.size\<close> is the
  64-bit image of an exact count that is at most the live bytes and at least \<open>- b\<close>.\<close>

definition accounted :: "nat \<Rightarrow> nat \<Rightarrow> 't Memtable \<Rightarrow> bool" where
  "accounted n b m \<longleftrightarrow> mt_ok bt ok m \<and> length (items (m_tree m)) \<le> n \<and> live_bytes bt m \<le> int b \<and>
     (\<exists>z. m_size m = word_of_int z \<and> z \<le> live_bytes bt m \<and> value_bytes m - int b \<le> z)"

lemma accounted_new: "accounted 0 0 (NewMemtable bt)"
  using table.good_new
  by (auto simp: accounted_def NewMemtable_def live_bytes_def value_bytes_def new_empty intro: exI [of _ 0])

lemma accounted_put:
  assumes "accounted n b m"
  shows "accounted (Suc n) (b + length k + length v) (Memtable_Put bt k v ts m)"
proof -
  obtain z where z: "m_size m = word_of_int z" "z \<le> live_bytes bt m" "value_bytes m - int b \<le> z"
    and m: "mt_ok bt ok m" "length (items (m_tree m)) \<le> n" "live_bytes bt m \<le> int b"
    using assms by (auto simp: accounted_def)
  let ?old = "case mt_map bt m k of None \<Rightarrow> 0 | Some e \<Rightarrow> int (length (e_Key e) + length (e_Value e))"
  have "m_size (Memtable_Put bt k v ts m) = word_of_int (z + int (length k + length v) - ?old)"
    by (simp add: size_put [OF m(1)] z(1))
  moreover have "z + int (length k + length v) - ?old \<le> live_bytes bt (Memtable_Put bt k v ts m)"
    "value_bytes (Memtable_Put bt k v ts m) - int (b + length k + length v) \<le> z + int (length k + length v) - ?old"
    "live_bytes bt (Memtable_Put bt k v ts m) \<le> int (b + length k + length v)"
    using z m mt_map_key [OF m(1)]
    by (auto simp: live_bytes_put value_bytes_put weight_def split: option.split)
  ultimately show ?thesis
    using m length_put [OF m(1), of k v ts] put_ok [OF m(1)] unfolding accounted_def by fastforce
qed

lemma accounted_delete:
  assumes "accounted n b m"
  shows "accounted (Suc n) (b + length k) (Memtable_Delete bt k ts m)"
proof -
  obtain z where z: "m_size m = word_of_int z" "z \<le> live_bytes bt m" "value_bytes m - int b \<le> z"
    and m: "mt_ok bt ok m" "length (items (m_tree m)) \<le> n" "live_bytes bt m \<le> int b"
    using assms by (auto simp: accounted_def)
  let ?old = "case mt_map bt m k of None \<Rightarrow> 0 | Some e \<Rightarrow> int (length (e_Key e) + length (e_Value e))"
  have "m_size (Memtable_Delete bt k ts m) = word_of_int (z - ?old)"
    by (simp add: size_delete [OF m(1)] z(1))
  moreover have "z - ?old \<le> live_bytes bt (Memtable_Delete bt k ts m)"
    "value_bytes (Memtable_Delete bt k ts m) - int (b + length k) \<le> z - ?old"
    "live_bytes bt (Memtable_Delete bt k ts m) \<le> int (b + length k)"
    using z m mt_map_key [OF m(1)]
    by (auto simp: live_bytes_delete value_bytes_delete weight_def split: option.split)
  ultimately show ?thesis
    using m length_delete [OF m(1), of k ts] delete_ok [OF m(1)] unfolding accounted_def by fastforce
qed

lemma accounted_mono: "accounted n b m \<Longrightarrow> n \<le> n' \<Longrightarrow> b \<le> b' \<Longrightarrow> accounted n' b' m"
  by (fastforce simp: accounted_def)

lemma accounted_restore:
  "accounted n b m \<Longrightarrow> accounted (n + length es) (b + entry_bytes es) (restore_entries bt es m)"
  unfolding restore_entries_def
proof (induction es arbitrary: n b m)
  case (Cons e es)
  have "accounted (Suc n) (b + (length (e_Key e) + length (e_Value e)))
      (if e_Tombstone e then Memtable_Delete bt (e_Key e) (e_Timestamp e) m
       else Memtable_Put bt (e_Key e) (e_Value e) (e_Timestamp e) m)"
    using accounted_put [OF Cons.prems] accounted_mono [OF accounted_delete [OF Cons.prems]] by (simp add: add.assoc)
  from Cons.IH [OF this] show ?case by (simp add: entry_bytes_def add.assoc)
qed (simp add: entry_bytes_def)

lemma accounted_replay:
  "accounted n b m \<Longrightarrow> accounted (n + length es) (b + record_bytes es) (replay_entries bt es m)"
  unfolding replay_entries_def
proof (induction es arbitrary: n b m)
  case (Cons e es)
  have "accounted (Suc n) (b + (length (l_Key e) + length (l_Value e)))
      (if l_OpType e = OpTypeDelete then Memtable_Delete bt (l_Key e) (l_Timestamp e) m
       else Memtable_Put bt (l_Key e) (l_Value e) (l_Timestamp e) m)"
    using accounted_put [OF Cons.prems] accounted_mono [OF accounted_delete [OF Cons.prems]] by (simp add: add.assoc)
  from Cons.IH [OF this] show ?case by (simp add: record_bytes_def add.assoc)
qed (simp add: record_bytes_def)

lemma accounted_any: "engine_any bt n b e \<Longrightarrow> accounted n b (en_memtable e)"
proof (induction rule: engine_any.induct)
  case (any_open os sn mk cfg files snaps e files')
  then show ?case
    using accounted_replay [OF accounted_restore [OF accounted_new]] by (simp add: Open_memtable)
next
  case (any_put n b e os now k v r e')
  then show ?case
    using accounted_put [OF any_put(3)] accounted_mono [OF any_put(3)] Engine_Put_table [OF any_put(2)] by auto
next
  case (any_delete n b e os now k r e')
  then show ?case
    using accounted_delete [OF any_delete(3)] accounted_mono [OF any_delete(3)] Engine_Delete_table [OF any_delete(2)] by auto
qed (auto simp: Engine_Get_def Engine_Close_def with_metrics_def write_snapshot_def Let_def split: if_splits option.splits prod.splits)

text \<open>Below \<open>2 ^ 63\<close> nothing has wrapped.\<close>

lemma accounted_exact:
  assumes "accounted n b m" "n < 2 ^ 63" "b < 2 ^ 63"
  shows "Memtable_Count m = int (length (Memtable_All bt m))"
    "- int b \<le> Memtable_Size m" "Memtable_Size m \<le> live_bytes bt m" "live_bytes bt m \<le> int b"
proof -
  obtain z where z: "m_size m = word_of_int z" "z \<le> live_bytes bt m" "value_bytes m - int b \<le> z"
    and m: "mt_ok bt ok m" "length (items (m_tree m)) \<le> n" "live_bytes bt m \<le> int b"
    using assms(1) by (auto simp: accounted_def)
  have "0 \<le> value_bytes m" unfolding value_bytes_def by (intro sum_list_nonneg) auto
  then have r: "- int b \<le> z" "z \<le> int b" using z m by linarith+
  moreover have "int b < 2 ^ 63" using assms(3) by simp
  ultimately have "- (2 ^ 63) \<le> z" "z < 2 ^ 63" by linarith+
  then have "sint (word_of_int z :: 64 word) = z" by (intro sint_word_of_int) simp_all
  then show "- int b \<le> Memtable_Size m" "Memtable_Size m \<le> live_bytes bt m" "live_bytes bt m \<le> int b"
    using r z m by (simp_all add: Memtable_Size_def)
  have "length (items (m_tree m)) < 2 ^ 63" using m(2) assms(2) by (rule le_less_trans)
  then have "sint (word_of_int (int (length (items (m_tree m)))) :: 64 word) = int (length (items (m_tree m)))"
    by (intro sint_word_of_int) simp_all
  then show "Memtable_Count m = int (length (Memtable_All bt m))"
    using m(1) by (simp add: mt_ok_def Memtable_Count_def Memtable_All_def foldl_snoc)
qed

end

text \<open>
  C7. A successful put is read back with its value and its timestamp, and every other key reads as
  before, on the engine's own operations.
\<close>

theorem put_get:
  assumes "btree bt entryLess ok" "mt_ok bt ok (en_memtable e)" "Engine_Put bt os now k v e = (None, e')"
  shows "fst (Engine_Get bt k' e') =
    (if k' = k then Inr \<lparr>v_Data = v, v_Timestamp = now\<rparr> else fst (Engine_Get bt k' e))"
  by (rule entry_tree.engine_put_get [OF entry_tree.intro [OF assms(1)] assms(2,3)])

lemma demo_ok: "mt_ok slist_ops (slist_inv entryLess) (en_memtable demo1)"
    "mt_ok slist_ops (slist_inv entryLess) (en_memtable demo2)"
    "mt_ok slist_ops (slist_inv entryLess) (en_memtable demo3)"
  by (simp_all add: demo_tables slist.table.good_new slist.put_ok slist.delete_ok)

theorem put_get_witness:
  "fst (Engine_Get slist_ops ''b'' demo3) = Inr \<lparr>v_Data = ''yz'', v_Timestamp = 4\<rparr> \<and>
   fst (Engine_Get slist_ops ''a'' demo3) = Inl ErrKeyNotFound"
proof -
  have "Memtable_Get slist_ops (en_memtable demo2) ''a'' = None" unfolding demo_tables by code_simp
  then have "fst (Engine_Get slist_ops ''a'' demo2) = Inl ErrKeyNotFound"
    using demo2_wal(3) by (simp add: Engine_Get_def Let_def)
  then show ?thesis
    using put_get [OF slist.btree_axioms demo_ok(2) demo3_put, of "''b''"]
      put_get [OF slist.btree_axioms demo_ok(2) demo3_put, of "''a''"] by simp
qed

text \<open>
  A successful delete makes the key unknown, and every other key reads as before.
\<close>

theorem delete_get:
  assumes "btree bt entryLess ok" "mt_ok bt ok (en_memtable e)" "Engine_Delete bt os now k e = (None, e')"
  shows "fst (Engine_Get bt k' e') = (if k' = k then Inl ErrKeyNotFound else fst (Engine_Get bt k' e))"
  by (rule entry_tree.engine_delete_get [OF entry_tree.intro [OF assms(1)] assms(2,3)])

theorem delete_get_witness: "fst (Engine_Get slist_ops ''a'' demo2) = Inl ErrKeyNotFound"
  using delete_get [OF slist.btree_axioms demo_ok(1) demo2_delete, of "''a''"] by simp

section \<open>Failed and rejected writes\<close>

text \<open>
  C27. A put that reports an error leaves the table, the write counter and the snapshots as they
  were and starts no snapshot; the exception is a snapshot threshold of zero, where the put is
  applied and acknowledged nowhere, because the modulus panics afterwards.
\<close>

theorem failed_put_keeps_table:
  assumes "Engine_Put bt os now k v e = (Some err, e')"
  shows "if err = ErrPanicDivide
    then c_SnapshotThreshold (en_cfg e) = 0 \<and> en_memtable e' = Memtable_Put bt k v now (en_memtable e)
    else en_memtable e' = en_memtable e \<and> en_writeCount e' = en_writeCount e \<and> en_snaps e' = en_snaps e \<and>
      en_pending e' = en_pending e \<and> (err \<in> {ErrEngineClosed, ErrEmptyKey} \<longrightarrow> e' = e)"
  using assms by (auto simp: Engine_Put_def Let_def with_metrics_def split: if_splits prod.splits option.splits)

theorem failed_put_keeps_table_witness:
  "en_memtable (snd (Engine_Put slist_ops (os_fine 5\<lparr>os_write_stop := Some 3\<rparr>) 5 ''c'' ''d'' demo3)) = en_memtable demo3 \<and>
   fst (Engine_Put slist_ops (os_fine 5\<lparr>os_write_stop := Some 3\<rparr>) 5 ''c'' ''d'' demo3) = Some (ErrWalAppend ErrWalWrite)"
proof -
  let ?p = "Engine_Put slist_ops (os_fine 5\<lparr>os_write_stop := Some 3\<rparr>) 5 ''c'' ''d'' demo3"
  have w: "w_open (en_wal demo3)" "w_size (en_wal demo3) < w_maxSize (en_wal demo3)" "\<not> en_closed demo3"
    using demo2_wal Engine_Put_success [OF demo3_put] WAL_Append_fine [of "en_wal demo2" 4]
    by (auto simp: demo3_def demo2_def demo1_def Engine_Delete_def Engine_Put_def demo0_def demo_wal_def WAL_Append_fine
      wal_room_def DefaultConfig_def Let_def with_metrics_def length_encode_record)
  then have f: "fst ?p = Some (ErrWalAppend ErrWalWrite)"
    by (simp add: Engine_Put_def WAL_Append_def rotate_not_needed Let_def)
  then have "?p = (Some (ErrWalAppend ErrWalWrite), snd ?p)" by (metis prod.collapse)
  from failed_put_keeps_table [OF this] f show ?thesis by simp
qed

text \<open>
  A write that stops after some bytes is not undone: \<open>Append\<close> returns the error, but the
  bytes stay in the file and \<open>w.size\<close> does not count them. From then on \<open>Size\<close>, documented as
  the file size, is short by that number of bytes, and so is the replay position of snapshots.
\<close>

theorem failed_append_shifts_log:
  assumes "wal_ok w fs" "w_open w" "wal_room w" "os_write_stop os = Some n" "n \<le> length (encode_record x)"
  shows "\<exists>fs' c. WAL_Append os w x fs = (Some ErrWalWrite, w, fs') \<and> map_of fs' ''wal.log'' = Some c \<and>
    int (length c) = WAL_Size w + int n"
  using assms by (auto simp: WAL_Append_def rotate_not_needed wal_room_def wal_ok_def map_of_append_file WAL_Size_def)

theorem failed_append_shifts_log_witness:
  "\<exists>fs' c. WAL_Append (os_fine 5\<lparr>os_write_stop := Some 3\<rparr>) demo_wal (put_record 5 ''c'' ''d'') [(''wal.log'', [])] =
      (Some ErrWalWrite, demo_wal, fs') \<and> map_of fs' ''wal.log'' = Some c \<and> int (length c) = WAL_Size demo_wal + int 3"
  by (rule failed_append_shifts_log) (simp_all add: demo_wal_def wal_ok_def wal_room_def length_encode_record)

section \<open>Range scans\<close>

text \<open>
  A scan of an open engine returns the live entries with a key in the half-open interval, in
  ascending key order and each once; tombstones do not appear.
\<close>

theorem scan_range:
  assumes "btree bt entryLess ok" "mt_ok bt ok (en_memtable e)" "\<not> en_closed e"
  shows "\<exists>es. Engine_Scan bt a b e = Inr (map (\<lambda>x. \<lparr>v_Data = e_Value x, v_Timestamp = e_Timestamp x\<rparr>) es) \<and>
    sorted_wrt entryLess es \<and>
    set es = {x. Memtable_Get bt (en_memtable e) (e_Key x) = Some x \<and> a \<le> e_Key x \<and> e_Key x < b}"
  using entry_tree.scan_lists_live [OF entry_tree.intro [OF assms(1)] assms(2)] assms(3)
  by (intro exI [of _ "Memtable_Scan bt (en_memtable e) a b"]) (simp add: Engine_Scan_def)

theorem scan_range_witness:
  "\<exists>es. Engine_Scan slist_ops ''a'' ''c'' demo3 = Inr (map (\<lambda>x. \<lparr>v_Data = e_Value x, v_Timestamp = e_Timestamp x\<rparr>) es) \<and>
    sorted_wrt entryLess es \<and> mk_entry ''b'' ''yz'' 4 False \<in> set es"
proof -
  have g: "Memtable_Get slist_ops (en_memtable demo3) ''b'' = Some (mk_entry ''b'' ''yz'' 4 False)"
    unfolding demo_tables by code_simp
  have "\<not> en_closed demo3" using Engine_Put_success [OF demo3_put] by simp
  from scan_range [OF slist.btree_axioms demo_ok(3) this, of "''a''" "''c''"] show ?thesis
    by (rule ex_forward) (use g in \<open>simp add: less_list_code\<close>)
qed

section \<open>Accounting of the table\<close>

text \<open>
  C15. Accounting of the table, in \<open>int64\<close> arithmetic: whatever files the engine was opened on and
  whatever operations ran since, with whatever outcome (rotations, short writes, failed syncs,
  rejected writes, snapshots and closing included), as long as fewer than \<open>2 ^ 63\<close> entries and
  bytes went in, the counter is the number of entries, tombstones included, and \<open>m.size\<close> is at
  most the bytes of the live entries and no lower than minus the bytes that went in.
\<close>

theorem table_accounting:
  assumes "btree bt entryLess ok" "engine_any bt n b e" "n < 2 ^ 63" "b < 2 ^ 63"
  shows "Memtable_Count (en_memtable e) = int (length (Memtable_All bt (en_memtable e))) \<and>
    - int b \<le> Memtable_Size (en_memtable e) \<and> Memtable_Size (en_memtable e) \<le> live_bytes bt (en_memtable e) \<and>
    live_bytes bt (en_memtable e) \<le> int b"
proof -
  have t: "entry_tree bt ok" using assms(1) by (rule entry_tree.intro)
  show ?thesis
    using entry_tree.accounted_exact [OF t entry_tree.accounted_any [OF t assms(2)] assms(3,4)] by simp
qed

text \<open>The demonstration run, followed by a put that rotates nothing but stops after three bytes.\<close>

lemma demo_any: "engine_any slist_ops 4 8 (snd (Engine_Put slist_ops (os_fine 5\<lparr>os_write_stop := Some 3\<rparr>) 5 ''c'' ''d'' demo3))"
proof -
  have "opened_from (os_fine 1) sn_fine DefaultConfig [] [] = ([], [])"
    by (simp add: opened_from_def LoadLatest_def listSnapshots_def sn_fine_def OpenWAL_def
      os_fine_def open_create_def WAL_Replay_def replay_loop_end)
  from any_open [OF demo0_open this] have "engine_any slist_ops 0 0 demo0" by (simp add: entry_bytes_def record_bytes_def)
  from any_put [OF any_delete [OF any_put [OF this demo1_put(1)] demo2_delete] demo3_put]
  have "engine_any slist_ops (Suc (Suc (Suc 0))) 6 demo3" by (simp add: eval_nat_numeral)
  from any_put [OF this prod.collapse [symmetric], of "''c''" "''d''" "os_fine 5\<lparr>os_write_stop := Some 3\<rparr>" 5]
  show ?thesis by (simp add: eval_nat_numeral)
qed

theorem table_accounting_witness:
  "let m = en_memtable (snd (Engine_Put slist_ops (os_fine 5\<lparr>os_write_stop := Some 3\<rparr>) 5 ''c'' ''d'' demo3)) in
   Memtable_Count m = int (length (Memtable_All slist_ops m)) \<and> Memtable_Size m \<le> live_bytes slist_ops m"
  using table_accounting [OF slist.btree_axioms demo_any] by (simp add: Let_def)

text \<open>
  The size is not exact: deleting a live key twice subtracts the length of the key a second
  time, although the tombstone was never added, so \<open>m.size\<close> falls below the live bytes and can
  become negative (and, after \<open>2 ^ 63\<close> bytes of it, wraps around).
\<close>

theorem double_delete_drifts:
  assumes "btree bt entryLess ok" "mt_ok bt ok m" "Memtable_Get bt m k = Some x"
  shows "Memtable_Size (Memtable_Delete bt k t' (Memtable_Delete bt k t m)) =
      sint (word_of_int (Memtable_Size m - int (2 * length k + length (e_Value x))) :: 64 word) \<and>
    live_bytes bt (Memtable_Delete bt k t' (Memtable_Delete bt k t m)) =
      live_bytes bt m - int (length k + length (e_Value x))"
  using entry_tree.size_drifts [OF entry_tree.intro [OF assms(1)] assms(2,3)] by (simp add: Memtable_Size_def)

theorem double_delete_drifts_witness:
  "Memtable_Size (Memtable_Delete slist_ops ''a'' 4 (Memtable_Delete slist_ops ''a'' 3 (en_memtable demo1))) = - 1"
proof -
  have g: "Memtable_Get slist_ops (en_memtable demo1) ''a'' = Some (mk_entry ''a'' ''x'' 2 False)"
    unfolding demo_tables by code_simp
  have z: "Memtable_Size (en_memtable demo1) = 2" 
    by (simp add: demo_tables Memtable_Put_def discount_existing_def NewMemtable_def slist_ops_def Let_def Memtable_Size_def)
  show ?thesis using double_delete_drifts [OF slist.btree_axioms demo_ok(1) g, of 4 3] z by simp
qed

section \<open>The log\<close>

text \<open>
  C16. Round trip of the log: from the byte position after any prefix of the appended entries,
  replay returns exactly the entries behind it, in order, each with its position in the file.
\<close>

theorem wal_roundtrip:
  assumes "wal_holds w fs (es @ es')" "os_reads os"
  shows "WAL_Replay os w (log_end es) fs = Inr (with_offsets (log_end es) es')"
proof -
  have "drop (length (encode_log es)) (encode_log (es @ es')) = encode_log es'" by simp
  then have "WAL_Replay os w (log_end es) fs = replay_loop AtEOF (encode_log es') (log_end es) []"
    using assms by (auto simp: WAL_Replay_def wal_holds_def os_reads_def log_end_def)
  then show ?thesis using assms(1) by (simp add: replay_log wal_holds_def)
qed

theorem wal_roundtrip_witness:
  "WAL_Replay (os_fine 5) (demo_wal\<lparr>w_size := 37\<rparr>) 19
     [(''wal.log'', encode_record (put_record 2 ''a'' ''x'') @ encode_record (delete_record 3 ''a''))] =
   Inr [delete_record 3 ''a''\<lparr>l_Offset := 19\<rparr>]"
  using wal_roundtrip [of "demo_wal\<lparr>w_size := 37\<rparr>"
      "[(''wal.log'', encode_record (put_record 2 ''a'' ''x'') @ encode_record (delete_record 3 ''a''))]"
      "[put_record 2 ''a'' ''x'']" "[delete_record 3 ''a'']" "os_fine 5"]
  by (simp add: wal_holds_def demo_wal_def length_encode_record log_end_def wf_entry_def int64_small)

text \<open>
  An append that has to rotate keeps every byte of the old log in an archive file, starts a new
  log that holds the new record alone, and leaves the other files alone.
\<close>

theorem append_rotates:
  assumes "WAL_Append os w x fs = (None, w', fs')" "\<not> wal_room w" "w_path w = ''wal.log''"
  shows "w' = w\<lparr>w_size := int (length (encode_record x))\<rparr> \<and>
    (\<exists>c. map_of fs ''wal.log'' = Some c \<and>
      map_of fs' = (map_of fs)(rotated_name (os_now os) \<mapsto> c, ''wal.log'' \<mapsto> encode_record x))"
proof -
  obtain w1 fs1 where rot: "rotateIfNeeded os w fs = (None, w1, fs1)"
    using assms(1) by (auto simp: WAL_Append_def split: prod.splits option.splits)
  have r: "w1 = w\<lparr>w_size := 0\<rparr> \<and> w_open w \<and> (\<exists>c. map_of fs (w_path w) = Some c \<and>
      map_of fs1 = (map_of fs)(rotated_name (os_now os) \<mapsto> c, w_path w \<mapsto> []))"
    using assms(2,3) by (intro rotate_success [OF _ rot]) (simp_all add: wal_room_def)
  with assms(1) rot have "w' = w1\<lparr>w_size := int (length (encode_record x))\<rparr> \<and>
      fs' = append_file (w_path w1) (encode_record x) fs1"
    by (auto simp: WAL_Append_def Let_def split: if_splits option.splits)
  with r assms(3) show ?thesis by (auto simp: map_of_append_file)
qed

theorem append_rotates_witness:
  "w_size (en_wal rot3) = 19 \<and>
   (\<exists>c. map_of (en_files rot2) ''wal.log'' = Some c \<and>
      map_of (en_files rot3) (rotated_name 8) = Some c)"
proof -
  have a: "WAL_Append (os_fine 8) (en_wal rot2) (put_record 8 ''c'' ''d'') (en_files rot2) = (None, en_wal rot3, en_files rot3)"
    using Engine_Put_success [OF rot3_put] by simp
  have w: "\<not> wal_room (en_wal rot2)" "w_path (en_wal rot2) = ''wal.log''"
    by (simp_all add: rot2_sel rot1_sel wal_room_def demo_wal_def)
  have "os_now (os_fine 8) = 8" by (simp add: os_fine_def)
  with append_rotates [OF a w] show ?thesis by (auto simp: length_encode_record)
qed

section \<open>Snapshots\<close>

text \<open>
  C28. A snapshot newer than the stored ones that is written without an error is what \<open>LoadLatest\<close>
  returns, and at most three snapshots are kept, whatever was in the directory.
\<close>

theorem snapshot_latest:
  assumes "snap_ok d" "valid_created (created data)" "\<forall>y\<in>stored d. created y < created data"
    and "Snapshot_Write env data d = (None, d')" "\<forall>n. sn_remove_ok env n" "sn_reads env'"
  shows "LoadLatest env' d' = Inr (Some data) \<and> card (stored d') \<le> 3"
proof -
  have "data \<in> stored d'" "\<forall>y\<in>stored d'. created y \<le> created data"
    using Snapshot_Write_latest [OF assms(1-4)] by simp_all
  then show ?thesis
    using Snapshot_Write_ok [OF assms(1,2,4)] Snapshot_Write_retains [OF assms(1,2,5,4)] assms(6)
    by (simp add: LoadLatest_latest sn_reads_def)
qed

text \<open>Four snapshots in a row, the fourth with three in the directory already.\<close>

definition snap_at :: "int \<Rightarrow> SnapshotData" where
  "snap_at t = rot_snap\<lparr>sd_Meta := sd_Meta rot_snap\<lparr>s_CreatedAt := t\<rparr>\<rparr>"

definition snap_run :: "int list \<Rightarrow> snap_file dir" where
  "snap_run ts = foldl (\<lambda>d t. snd (Snapshot_Write sn_fine (snap_at t) d)) [] ts"

lemma created_snap_at [simp]: "created (snap_at t) = t"
  by (simp add: snap_at_def created_def)

lemma Snapshot_Write_fine: "Snapshot_Write sn_fine data d = (None, snd (Snapshot_Write sn_fine data d))"
  by (simp add: Snapshot_Write_def Let_def pruneOld_def listSnapshots_def sn_fine_def)

lemma snap_run_ok:
  "\<forall>t\<in>set ts. valid_created t \<Longrightarrow> snap_ok (snap_run ts) \<and> stored (snap_run ts) \<subseteq> snap_at ` set ts"
proof (induction ts rule: rev_induct)
  case Nil
  then show ?case by (simp add: snap_run_def snap_ok_def stored_def)
next
  case (snoc t ts)
  have "snap_run (ts @ [t]) = snd (Snapshot_Write sn_fine (snap_at t) (snap_run ts))" by (simp add: snap_run_def)
  with snoc Snapshot_Write_ok [OF _ _ Snapshot_Write_fine, of "snap_run ts" "snap_at t"]
    Snapshot_Write_stored [OF _ _ Snapshot_Write_fine, of "snap_run ts" "snap_at t"] show ?case by auto
qed

theorem snapshot_latest_witness:
  "LoadLatest sn_fine (snd (Snapshot_Write sn_fine (snap_at 4) (snap_run [1, 2, 3]))) = Inr (Some (snap_at 4)) \<and>
   card (stored (snd (Snapshot_Write sn_fine (snap_at 4) (snap_run [1, 2, 3])))) \<le> 3"
proof -
  have r: "snap_ok (snap_run [1, 2, 3])" "stored (snap_run [1, 2, 3]) \<subseteq> {snap_at 1, snap_at 2, snap_at 3}"
    using snap_run_ok [of "[1, 2, 3]"] by (simp_all add: valid_created_def)
  have "\<forall>y\<in>stored (snap_run [1, 2, 3]). created y < created (snap_at 4)" using r(2) by auto
  from snapshot_latest [OF r(1) _ this Snapshot_Write_fine _ fine_reads(1)] show ?thesis
    by (simp add: valid_created_def sn_fine_def)
qed

end
