(* ===== verification/KV_Hints.thy ===== *)
theory KV_Hints
  imports KV_StorageOps
begin

text \<open>
  \<open>replication/hints.go\<close>: hinted handoff. Hints are kept in memory per node and written to the
  local engine under a key of their own. The JSON encoding of a hint and the outcome of the
  remote put are arguments. \<open>Deliver\<close> takes the lock twice, so its first and last part are
  definitions of their own and other operations may run between them.
\<close>

section \<open>Hints\<close>

definition hintTTL :: int where "hintTTL = 3 * hour_ns"

definition hintKeyPrefix :: string where "hintKeyPrefix = ''__hint__''"

record Hint =
  hi_IntendedNode :: string
  hi_Key :: key
  hi_Value :: bytes
  hi_StoredAt :: int

record HintedHandoff =
  hh_hints :: "(string \<times> Hint list) list"

definition NewHintedHandoff :: HintedHandoff where
  "NewHintedHandoff = \<lparr>hh_hints = []\<rparr>"

definition pending :: "HintedHandoff \<Rightarrow> string \<Rightarrow> Hint list" where
  "pending h nid = (case map_of (hh_hints h) nid of Some hs \<Rightarrow> hs | None \<Rightarrow> [])"

definition hint_key :: "string \<Rightarrow> key \<Rightarrow> int \<Rightarrow> key" where
  "hint_key nid k storedAt = hintKeyPrefix @ nid @ '':'' @ k @ '':'' @ fmt_d storedAt"

text \<open>\<open>Store\<close>: \<open>now\<close> is the time of the hint, \<open>put_now\<close> the time the engine stamps its entry with.
  The error of the put is dropped.\<close>

definition Hint_Store ::
  "(Entry, 't) btree_ops \<Rightarrow> (Hint \<Rightarrow> bytes) \<Rightarrow> os_env \<Rightarrow> int \<Rightarrow> int \<Rightarrow> string \<Rightarrow> key \<Rightarrow> bytes \<Rightarrow>
   HintedHandoff \<times> 't StorageEngine \<Rightarrow> HintedHandoff \<times> 't StorageEngine" where
  "Hint_Store bt marshal os now put_now intendedNode k v st =
     (case st of (h, e) \<Rightarrow>
        let hint = \<lparr>hi_IntendedNode = intendedNode, hi_Key = k, hi_Value = v, hi_StoredAt = now\<rparr>;
            h1 = h\<lparr>hh_hints := AList.update intendedNode (pending h intendedNode @ [hint]) (hh_hints h)\<rparr>;
            e1 = snd (Engine_Put bt os put_now (hint_key intendedNode k now) (marshal hint) e)
        in (h1, e1))"

text \<open>What the world answers while one hint is delivered: the clock, the remote put's error if any,
  and the system and clock of the engine's delete.\<close>

record deliver_env =
  de_now :: int
  de_failed :: bool
  de_os :: os_env
  de_del_now :: int

fun deliver_loop ::
  "(Entry, 't) btree_ops \<Rightarrow> (Hint \<Rightarrow> deliver_env) \<Rightarrow> string \<Rightarrow> Hint list \<Rightarrow> Hint list \<times> 't StorageEngine \<Rightarrow>
   Hint list \<times> 't StorageEngine" where
  "deliver_loop bt env nid [] st = st"
| "deliver_loop bt env nid (hint # hs) (remaining, e) =
     (if hintTTL < de_now (env hint) - hi_StoredAt hint then deliver_loop bt env nid hs (remaining, e)
      else if de_failed (env hint) then deliver_loop bt env nid hs (remaining @ [hint], e)
      else deliver_loop bt env nid hs
             (remaining, snd (Engine_Delete bt (de_os (env hint)) (de_del_now (env hint))
                                (hint_key nid (hi_Key hint) (hi_StoredAt hint)) e)))"

definition Deliver_finish :: "string \<Rightarrow> Hint list \<Rightarrow> HintedHandoff \<Rightarrow> HintedHandoff" where
  "Deliver_finish nid remaining h =
     (if length remaining = 0 then h\<lparr>hh_hints := AList.delete nid (hh_hints h)\<rparr>
      else h\<lparr>hh_hints := AList.update nid remaining (hh_hints h)\<rparr>)"

text \<open>\<open>Deliver\<close> when nothing runs between its two critical sections.\<close>

definition Hint_Deliver ::
  "(Entry, 't) btree_ops \<Rightarrow> (Hint \<Rightarrow> deliver_env) \<Rightarrow> string \<Rightarrow>
   HintedHandoff \<times> 't StorageEngine \<Rightarrow> HintedHandoff \<times> 't StorageEngine" where
  "Hint_Deliver bt env nid st =
     (case st of (h, e) \<Rightarrow>
        let pend = pending h nid
        in if length pend = 0 then (h, e)
           else case deliver_loop bt env nid pend ([], e) of
                  (remaining, e1) \<Rightarrow> (Deliver_finish nid remaining h, e1))"

definition PendingCount :: "HintedHandoff \<Rightarrow> string \<Rightarrow> int" where
  "PendingCount h nid = int (length (pending h nid))"

definition TotalPending :: "HintedHandoff \<Rightarrow> int" where
  "TotalPending h = foldl (\<lambda>total (_, hs). total + int (length hs)) 0 (hh_hints h)"

text \<open>One turn of the loop \<open>Start\<close> runs: the nodes are listed first, then served one by one.\<close>

definition deliver_round ::
  "(Entry, 't) btree_ops \<Rightarrow> (string \<Rightarrow> Hint \<Rightarrow> deliver_env) \<Rightarrow> (string \<Rightarrow> string) \<Rightarrow>
   HintedHandoff \<times> 't StorageEngine \<Rightarrow> HintedHandoff \<times> 't StorageEngine" where
  "deliver_round bt env getAddress st =
     foldl (\<lambda>st nid. if getAddress nid = [] then st else Hint_Deliver bt (env nid) nid st) st
       (map fst (hh_hints (fst st)))"

section \<open>What the operations do\<close>

definition hints_ok :: "HintedHandoff \<Rightarrow> bool" where
  "hints_ok h \<longleftrightarrow> distinct (map fst (hh_hints h))"

lemma pending_update [simp]:
  "pending (h\<lparr>hh_hints := AList.update nid hs (hh_hints h)\<rparr>) n = (if n = nid then hs else pending h n)"
  by (simp add: pending_def AList.update_conv')

lemma pending_delete [simp]:
  "pending (h\<lparr>hh_hints := AList.delete nid (hh_hints h)\<rparr>) n = (if n = nid then [] else pending h n)"
  by (simp add: pending_def AList.delete_conv')

lemma pending_finish: "pending (Deliver_finish nid hs h) n = (if n = nid then hs else pending h n)"
  by (simp add: Deliver_finish_def)

lemma pending_Store:
  "pending (fst (Hint_Store bt marshal os now put_now nid k v (h, e))) n =
     (if n = nid then pending h nid @ [\<lparr>hi_IntendedNode = nid, hi_Key = k, hi_Value = v, hi_StoredAt = now\<rparr>] else pending h n)"
  by (simp add: Hint_Store_def Let_def)

definition expired :: "(Hint \<Rightarrow> deliver_env) \<Rightarrow> Hint \<Rightarrow> bool" where
  "expired env hint \<longleftrightarrow> hintTTL < de_now (env hint) - hi_StoredAt hint"

lemma deliver_loop_remaining:
  "fst (deliver_loop bt env nid hs (remaining, e)) = remaining @ filter (\<lambda>h. \<not> expired env h \<and> de_failed (env h)) hs"
  by (induction hs arbitrary: remaining e) (auto simp: expired_def)

lemma pending_Deliver:
  "pending (fst (Hint_Deliver bt env nid (h, e))) n =
     (if n = nid then filter (\<lambda>h. \<not> expired env h \<and> de_failed (env h)) (pending h nid) else pending h n)"
proof (cases "pending h nid = []")
  case False
  obtain rem e1 where d: "deliver_loop bt env nid (pending h nid) ([], e) = (rem, e1)" by (metis prod.exhaust)
  then have "rem = filter (\<lambda>h. \<not> expired env h \<and> de_failed (env h)) (pending h nid)"
    using deliver_loop_remaining [of bt env nid "pending h nid" "[]" e] by simp
  with False d show ?thesis by (simp add: Hint_Deliver_def Let_def pending_finish)
qed (simp add: Hint_Deliver_def Let_def)

lemma total_pending: "TotalPending h = sum_list (map (\<lambda>(_, hs). int (length hs)) (hh_hints h))"
proof -
  have "foldl (\<lambda>total (_, hs). total + int (length hs)) a xs = a + sum_list (map (\<lambda>(_, hs). int (length hs)) xs)"
    for a and xs :: "(string \<times> Hint list) list"
    by (induction xs arbitrary: a) auto
  then show ?thesis by (simp add: TotalPending_def)
qed

lemma total_split:
  assumes "hints_ok h"
  shows "TotalPending h = PendingCount h nid + TotalPending (h\<lparr>hh_hints := AList.delete nid (hh_hints h)\<rparr>)"
proof -
  have "distinct (map fst xs) \<Longrightarrow> sum_list (map (\<lambda>(_, hs). int (length hs)) xs) =
      int (length (case map_of xs nid of Some hs \<Rightarrow> hs | None \<Rightarrow> [])) +
      sum_list (map (\<lambda>(_, hs). int (length hs)) (AList.delete nid xs))" for xs :: "(string \<times> Hint list) list"
  proof (induction xs)
    case (Cons x xs)
    obtain n hs where x: "x = (n, hs)" by (cases x)
    show ?case
    proof (cases "n = nid")
      case True
      then have "map_of xs nid = None" "AList.delete nid xs = xs"
        using Cons.prems by (simp_all add: x map_of_eq_None_iff AList.delete_id)
      with True show ?thesis by (simp add: x)
    next
      case False
      with Cons show ?thesis by (simp add: x)
    qed
  qed simp
  from this [of "hh_hints h"] assms show ?thesis
    by (simp add: total_pending PendingCount_def pending_def hints_ok_def)
qed

lemma hints_ok_ops:
  "hints_ok NewHintedHandoff"
  "hints_ok h \<Longrightarrow> hints_ok (fst (Hint_Store bt marshal os now put_now nid k v (h, e)))"
  "hints_ok h \<Longrightarrow> hints_ok (Deliver_finish nid hs h)"
  by (simp_all add: hints_ok_def NewHintedHandoff_def Hint_Store_def Let_def Deliver_finish_def distinct_update AList.distinct_delete)

section \<open>Properties\<close>

text \<open>
  C31. Delivery accounts for every hint: after a delivery that nothing interferes with, the hints
  kept for the node are, in order, exactly those that were neither expired nor accepted by the
  node; other nodes' hints are untouched.
\<close>

theorem deliver_keeps_undelivered:
  "pending (fst (Hint_Deliver bt env nid (h, e))) n =
     (if n = nid
      then filter (\<lambda>hint. de_now (env hint) - hi_StoredAt hint \<le> hintTTL \<and> de_failed (env hint)) (pending h nid)
      else pending h n)"
  by (simp add: pending_Deliver expired_def not_less)



context entry_tree
begin

text \<open>A put that the engine acknowledged is read back after a crash.\<close>

lemma put_survives_crash:
  assumes r: "engine_reach bt e" "wal_room (en_wal e)" and p: "Engine_Put bt os now k v e = (None, e1)"
    and k: "int64_range now" "length k < 2 ^ 32" "length v < 2 ^ 32" and o: "sn_reads sn" "os_opens os'"
  shows "\<exists>e' files. Engine_Open bt os' sn True cfg (en_files e1) (en_snaps e1) = (Inr e', files) \<and>
    fst (Engine_Get bt k e') = Inr \<lparr>v_Data = v, v_Timestamp = now\<rparr>"
proof -
  have d: "durable bt ok e" by (rule durable_reach [OF r(1)])
  have d1: "durable bt ok e1" using durable_put [OF d r(2) k p] by simp
  then have "on_disk (en_files e1) (en_snaps e1) (mt_map bt (en_memtable e1))" by (simp add: durable_def)
  from Open_recovers [OF this o, of cfg] obtain e' where e':
      "Engine_Open bt os' sn True cfg (en_files e1) (en_snaps e1) = (Inr e', en_files e1)"
      "mt_map bt (en_memtable e') = mt_map bt (en_memtable e1)" "durable bt ok e'" "\<not> en_closed e'" by blast
  have m: "mt_ok bt ok (en_memtable e)" "mt_ok bt ok (en_memtable e1)" "mt_ok bt ok (en_memtable e')"
    using d d1 e'(3) by (simp_all add: durable_def)
  have "fst (Engine_Get bt k e1) = Inr \<lparr>v_Data = v, v_Timestamp = now\<rparr>" using engine_put_get [OF m(1) p, of k] by simp
  moreover have "\<not> en_closed e1" using Engine_Put_success [OF p] by simp
  ultimately have "fst (Engine_Get bt k e') = Inr \<lparr>v_Data = v, v_Timestamp = now\<rparr>"
    using get_same [OF m(3,2) e'(2)] e'(4) by (simp add: Engine_Get_def Let_def split: option.splits)
  with e'(1) show ?thesis by blast
qed

end

text \<open>
  Hints do not survive a restart: \<open>Store\<close> writes them to the engine so that they do, and after a
  crash the engine still has the record, but a new handoff manager starts with no pending hints
  and nothing reads the records back.
\<close>

theorem stored_hints_forgotten:
  assumes "btree bt entryLess ok" "engine_reach bt e" "wal_room (en_wal e)"
    and "hint = \<lparr>hi_IntendedNode = nid, hi_Key = k, hi_Value = v, hi_StoredAt = now\<rparr>"
    and "Engine_Put bt os put_now (hint_key nid k now) (marshal hint) e = (None, e1)"
    and "int64_range put_now" "length (hint_key nid k now) < 2 ^ 32" "length (marshal hint) < 2 ^ 32" "sn_reads sn" "os_opens os'"
  shows "Hint_Store bt marshal os now put_now nid k v (NewHintedHandoff, e) =
      (\<lparr>hh_hints = [(nid, [hint])]\<rparr>, e1) \<and>
    (\<exists>e' files. Engine_Open bt os' sn True cfg (en_files e1) (en_snaps e1) = (Inr e', files) \<and>
      fst (Engine_Get bt (hint_key nid k now) e') = Inr \<lparr>v_Data = marshal hint, v_Timestamp = put_now\<rparr>) \<and>
    TotalPending NewHintedHandoff = 0"
proof -
  have t: "entry_tree bt ok" using assms(1) by (rule entry_tree.intro)
  have "Hint_Store bt marshal os now put_now nid k v (NewHintedHandoff, e) = (\<lparr>hh_hints = [(nid, [hint])]\<rparr>, e1)"
    using assms(4,5) by (simp add: Hint_Store_def NewHintedHandoff_def Let_def pending_def)
  then show ?thesis
    using entry_tree.put_survives_crash [OF t assms(2,3,5,6,7,8,9,10), of cfg] by (simp add: TotalPending_def NewHintedHandoff_def)
qed

theorem stored_hints_forgotten_witness:
  "\<exists>e1 e' files. Hint_Store slist_ops hi_Value (os_fine 4) 9 4 ''n2'' ''k'' ''v'' (NewHintedHandoff, demo2) =
      (\<lparr>hh_hints = [(''n2'', [\<lparr>hi_IntendedNode = ''n2'', hi_Key = ''k'', hi_Value = ''v'', hi_StoredAt = 9\<rparr>])]\<rparr>, e1) \<and>
    Engine_Open slist_ops (os_fine 5) sn_fine True DefaultConfig (en_files e1) (en_snaps e1) = (Inr e', files) \<and>
    fst (Engine_Get slist_ops (hint_key ''n2'' ''k'' 9) e') = Inr \<lparr>v_Data = ''v'', v_Timestamp = 4\<rparr> \<and>
    TotalPending NewHintedHandoff = 0"
proof -
  let ?hint = "\<lparr>hi_IntendedNode = ''n2'', hi_Key = ''k'', hi_Value = ''v'', hi_StoredAt = 9\<rparr>"
  have k: "hint_key ''n2'' ''k'' 9 = ''__hint__n2:k:9''"
    by code_simp
  obtain e1 where p: "Engine_Put slist_ops (os_fine 4) 4 (hint_key ''n2'' ''k'' 9) (hi_Value ?hint) demo2 = (None, e1)"
    using demo2_wal by (simp add: k Engine_Put_def WAL_Append_fine Let_def DefaultConfig_def)
  show ?thesis
    using stored_hints_forgotten [where marshal = hi_Value and hint = ?hint and cfg = DefaultConfig,
        OF slist.btree_axioms demo_reach2 demo2_wal(2) refl p _ _ _ fine_reads(1) fine_reads(2) [of 5]]
    by (simp add: k int64_small)
qed

end
