(* ===== verification/KV_Ring.thy ===== *)
theory KV_Ring
  imports KV_Prelude
begin

text \<open>
  \<open>hash/ring.go\<close>: the consistent hash ring with virtual nodes. The digest function
  (\<open>sha256.Sum256\<close>) is an argument \<open>sha\<close> of every operation, so that the theorems hold for
  any hash; what depends on the absence of collisions says so. The map \<open>r.nodes\<close> is an
  association list whose order stands for the order of iteration.
\<close>

section \<open>The ring\<close>

definition DefaultVirtualNodes :: int where "DefaultVirtualNodes = 150"

datatype ring_error = ErrNoNodes | ErrNotFound | PanicModZero | PanicNilNode

record Node =
  n_ID :: string
  n_Address :: string

type_synonym digest = "bytes \<Rightarrow> bytes"

record Ring =
  r_virtualNodes :: int
  r_ring :: "32 word list"
  r_owners :: "32 word \<rightharpoonup> Node"
  r_nodes :: "(string \<times> Node) list"

definition hashKey :: "digest \<Rightarrow> key \<Rightarrow> 32 word" where
  "hashKey sha k = word_of_nat (be_decode (take 4 (sha k)))"

text \<open>\<open>hashKey(fmt.Sprintf("%s#%d", id, i))\<close>\<close>

definition virtual_hash :: "digest \<Rightarrow> string \<Rightarrow> nat \<Rightarrow> 32 word" where
  "virtual_hash sha nid i = hashKey sha (nid @ ''#'' @ fmt_d (int i))"

definition NewRing :: "int \<Rightarrow> Ring" where
  "NewRing virtualNodes =
     \<lparr>r_virtualNodes = (if virtualNodes \<le> 0 then DefaultVirtualNodes else virtualNodes),
      r_ring = [], r_owners = Map.empty, r_nodes = []\<rparr>"

definition AddNode :: "digest \<Rightarrow> string \<Rightarrow> string \<Rightarrow> Ring \<Rightarrow> Ring" where
  "AddNode sha nid address r =
     (let node = \<lparr>n_ID = nid, n_Address = address\<rparr>;
          r1 = r\<lparr>r_nodes := AList.update nid node (r_nodes r)\<rparr>;
          r2 = foldl (\<lambda>r i. let h = virtual_hash sha nid i
                            in r\<lparr>r_ring := r_ring r @ [h], r_owners := (r_owners r)(h \<mapsto> node)\<rparr>)
                 r1 [0..<nat (r_virtualNodes r)]
      in r2\<lparr>r_ring := sort (r_ring r2)\<rparr>)"

definition RemoveNode :: "digest \<Rightarrow> string \<Rightarrow> Ring \<Rightarrow> ring_error option \<times> Ring" where
  "RemoveNode sha nid r =
     (case map_of (r_nodes r) nid of
        None \<Rightarrow> (Some ErrNotFound, r)
      | Some _ \<Rightarrow>
          let toRemove = map (virtual_hash sha nid) [0..<nat (r_virtualNodes r)];
              (filtered, owners) =
                foldl (\<lambda>(filtered, owners) h.
                         if h \<notin> set toRemove then (filtered @ [h], owners)
                         else (filtered, owners(h := None)))
                  ([], r_owners r) (r_ring r)
          in (None, r\<lparr>r_ring := filtered, r_owners := owners, r_nodes := AList.delete nid (r_nodes r)\<rparr>))"

definition ring_search :: "Ring \<Rightarrow> 32 word \<Rightarrow> nat" where
  "ring_search r h =
     (let idx = sort_Search (length (r_ring r)) (\<lambda>i. h \<le> r_ring r ! i)
      in if length (r_ring r) \<le> idx then 0 else idx)"

text \<open>The result \<open>Inr None\<close> stands for a nil pointer.\<close>

definition GetNode :: "digest \<Rightarrow> Ring \<Rightarrow> key \<Rightarrow> ring_error + Node option" where
  "GetNode sha r k =
     (if length (r_ring r) = 0 then Inl ErrNoNodes
      else Inr (r_owners r (r_ring r ! ring_search r (hashKey sha k))))"

text \<open>The loop of \<open>GetNSuccessors\<close> has no bound of its own; \<open>None\<close> is a loop that does not end.\<close>

partial_function (option) successors_loop ::
  "Ring \<Rightarrow> nat \<Rightarrow> int \<Rightarrow> nat \<Rightarrow> string list \<Rightarrow> Node list \<Rightarrow> (ring_error + Node list) option" where
  "successors_loop r start n i seen result =
     (if int (length result) < n
      then if length (r_ring r) = 0 then Some (Inl PanicModZero)
           else case r_owners r (r_ring r ! ((start + i) mod length (r_ring r))) of
                  None \<Rightarrow> Some (Inl PanicNilNode)
                | Some node \<Rightarrow>
                    if n_ID node \<notin> set seen
                    then successors_loop r start n (i + 1) (seen @ [n_ID node]) (result @ [node])
                    else successors_loop r start n (i + 1) seen result
      else Some (Inr result))"

definition GetNSuccessors :: "digest \<Rightarrow> Ring \<Rightarrow> key \<Rightarrow> int \<Rightarrow> (ring_error + Node list) option" where
  "GetNSuccessors sha r k n =
     (if length (r_nodes r) = 0 then Some (Inl ErrNoNodes)
      else let n1 = (if int (length (r_nodes r)) < n then int (length (r_nodes r)) else n)
           in successors_loop r (ring_search r (hashKey sha k)) n1 0 [] [])"

definition Ring_Nodes :: "Ring \<Rightarrow> Node list" where
  "Ring_Nodes r = foldl (\<lambda>nodes (_, n). nodes @ [n]) [] (r_nodes r)"

definition Ring_Size :: "Ring \<Rightarrow> int" where
  "Ring_Size r = int (length (r_nodes r))"

section \<open>Invariant\<close>

text \<open>The hashes are sorted and are exactly those with an owner; an owner is a member, and the
  hash is one of its virtual nodes.\<close>

definition hashes :: "digest \<Rightarrow> Ring \<Rightarrow> string \<Rightarrow> 32 word set" where
  "hashes sha r nid = virtual_hash sha nid ` {0..<nat (r_virtualNodes r)}"

definition ring_ok :: "digest \<Rightarrow> Ring \<Rightarrow> bool" where
  "ring_ok sha r \<longleftrightarrow> 0 < r_virtualNodes r \<and> sorted (r_ring r) \<and> set (r_ring r) = dom (r_owners r) \<and>
     distinct (map fst (r_nodes r)) \<and> (\<forall>nid n. map_of (r_nodes r) nid = Some n \<longrightarrow> n_ID n = nid) \<and>
     (\<forall>h n. r_owners r h = Some n \<longrightarrow> map_of (r_nodes r) (n_ID n) = Some n \<and> h \<in> hashes sha r (n_ID n))"

lemma ring_ok_owner:
  "ring_ok sha r \<Longrightarrow> r_owners r h = Some n \<Longrightarrow> map_of (r_nodes r) (n_ID n) = Some n \<and> h \<in> hashes sha r (n_ID n)"
  unfolding ring_ok_def by blast

lemma ring_ok_member: "ring_ok sha r \<Longrightarrow> map_of (r_nodes r) nid = Some n \<Longrightarrow> n_ID n = nid"
  unfolding ring_ok_def by blast

lemma AddNode_loop:
  "foldl (\<lambda>r i. r\<lparr>r_ring := r_ring r @ [f i], r_owners := (r_owners r)(f i \<mapsto> node)\<rparr>) r js =
   r\<lparr>r_ring := r_ring r @ map f js, r_owners := (\<lambda>h. if h \<in> f ` set js then Some node else r_owners r h)\<rparr>"
  by (induction js arbitrary: r) (auto simp: fun_eq_iff)

lemma AddNode_sel:
  "r_virtualNodes (AddNode sha nid a r) = r_virtualNodes r"
  "r_nodes (AddNode sha nid a r) = AList.update nid \<lparr>n_ID = nid, n_Address = a\<rparr> (r_nodes r)"
  "r_ring (AddNode sha nid a r) = sort (r_ring r @ map (virtual_hash sha nid) [0..<nat (r_virtualNodes r)])"
  "r_owners (AddNode sha nid a r) =
     (\<lambda>h. if h \<in> hashes sha r nid then Some \<lparr>n_ID = nid, n_Address = a\<rparr> else r_owners r h)"
  by (simp_all add: AddNode_def AddNode_loop hashes_def Let_def fun_eq_iff)

lemma RemoveNode_loop:
  "foldl (\<lambda>(filtered, owners) h. if h \<notin> S then (filtered @ [h], owners) else (filtered, owners(h := None))) (acc, own) hs =
   (acc @ filter (\<lambda>h. h \<notin> S) hs, \<lambda>h. if h \<in> S \<and> h \<in> set hs then None else own h)"
  by (induction hs arbitrary: acc own) (auto simp: fun_eq_iff)

lemma RemoveNode_known:
  assumes "ring_ok sha r" "map_of (r_nodes r) nid = Some n"
  shows "RemoveNode sha nid r = (None, r\<lparr>r_ring := filter (\<lambda>h. h \<notin> hashes sha r nid) (r_ring r),
    r_owners := (\<lambda>h. if h \<in> hashes sha r nid then None else r_owners r h), r_nodes := AList.delete nid (r_nodes r)\<rparr>)"
proof -
  have "h \<notin> set (r_ring r) \<longleftrightarrow> r_owners r h = None" for h
    using assms(1) by (auto simp: ring_ok_def)
  then show ?thesis
    using assms(2) by (auto simp: RemoveNode_def RemoveNode_loop hashes_def fun_eq_iff)
qed

lemma RemoveNode_unknown: "map_of (r_nodes r) nid = None \<Longrightarrow> RemoveNode sha nid r = (Some ErrNotFound, r)"
  by (simp add: RemoveNode_def)

lemma ring_ok_new: "ring_ok sha (NewRing vn)"
  by (simp add: ring_ok_def NewRing_def DefaultVirtualNodes_def)

lemma ring_ok_add:
  assumes r: "ring_ok sha r"
  shows "ring_ok sha (AddNode sha nid a r)"
proof -
  let ?r = "AddNode sha nid a r"
  have "0 < r_virtualNodes ?r" "sorted (r_ring ?r)" "distinct (map fst (r_nodes ?r))"
    using r by (simp_all add: ring_ok_def AddNode_sel distinct_update)
  moreover have "set (r_ring ?r) = dom (r_owners ?r)"
    using r by (auto simp: ring_ok_def AddNode_sel hashes_def)
  moreover have "n_ID n = i" if "map_of (r_nodes ?r) i = Some n" for i n
    using that ring_ok_member [OF r] by (auto simp: AddNode_sel AList.update_conv' split: if_splits)
  moreover have "map_of (r_nodes ?r) (n_ID n) = Some n \<and> h \<in> hashes sha ?r (n_ID n)" if "r_owners ?r h = Some n" for h n
    using that ring_ok_owner [OF r] by (auto simp: AddNode_sel AList.update_conv' hashes_def split: if_splits)
  ultimately show ?thesis unfolding ring_ok_def by blast
qed

lemma ring_ok_remove:
  assumes r: "ring_ok sha r"
  shows "ring_ok sha (snd (RemoveNode sha nid r))"
proof (cases "map_of (r_nodes r) nid")
  case None
  with r show ?thesis by (simp add: RemoveNode_unknown)
next
  case (Some m)
  let ?r = "snd (RemoveNode sha nid r)"
  have sel: "r_virtualNodes ?r = r_virtualNodes r" "r_ring ?r = filter (\<lambda>h. h \<notin> hashes sha r nid) (r_ring r)"
    "r_owners ?r = (\<lambda>h. if h \<in> hashes sha r nid then None else r_owners r h)" "r_nodes ?r = AList.delete nid (r_nodes r)"
    by (simp_all add: RemoveNode_known [OF r Some])
  have "0 < r_virtualNodes ?r" "sorted (r_ring ?r)" "distinct (map fst (r_nodes ?r))"
    using r by (simp_all add: ring_ok_def sel AList.distinct_delete sorted_wrt_filter)
  moreover have "set (r_ring ?r) = dom (r_owners ?r)"
    using r by (auto simp: ring_ok_def sel split: if_splits)
  moreover have "n_ID n = i" if "map_of (r_nodes ?r) i = Some n" for i n
    using that ring_ok_member [OF r] by (auto simp: sel AList.delete_conv' split: if_splits)
  moreover have "map_of (r_nodes ?r) (n_ID n) = Some n \<and> h \<in> hashes sha ?r (n_ID n)" if "r_owners ?r h = Some n" for h n
    using that ring_ok_owner [OF r, of h n] by (auto simp: sel AList.delete_conv' hashes_def split: if_splits)
  ultimately show ?thesis unfolding ring_ok_def by blast
qed

section \<open>Lookup\<close>

text \<open>Where a hash falls: the first hash of the sorted ring that is not smaller, or else the
  smallest of all.\<close>

definition successor :: "32 word set \<Rightarrow> 32 word \<Rightarrow> 32 word" where
  "successor S h = (if \<exists>x\<in>S. h \<le> x then Min {x \<in> S. h \<le> x} else Min S)"

lemma ring_search_bound: "r_ring r \<noteq> [] \<Longrightarrow> ring_search r h < length (r_ring r)"
  by (auto simp: ring_search_def Let_def)

lemma search_sorted:
  fixes xs :: "'a :: linorder list"
  assumes "sorted xs" "xs \<noteq> []"
    and i: "i \<le> length xs" "\<forall>k<i. \<not> h \<le> xs ! k" "\<forall>k. i \<le> k \<longrightarrow> k < length xs \<longrightarrow> h \<le> xs ! k"
  shows "if i < length xs then (\<exists>x\<in>set xs. h \<le> x) \<and> Min {x \<in> set xs. h \<le> x} = xs ! i
         else \<not> (\<exists>x\<in>set xs. h \<le> x) \<and> Min (set xs) = xs ! 0"
proof (cases "i < length xs")
  case True
  then have hi: "h \<le> xs ! i" "xs ! i \<in> set xs" using i(3) by simp_all
  have "Min {x \<in> set xs. h \<le> x} = xs ! i"
  proof (rule Min_eqI)
    fix y assume "y \<in> {x \<in> set xs. h \<le> x}"
    then obtain k where k: "k < length xs" "y = xs ! k" "h \<le> xs ! k" by (auto simp: in_set_conv_nth)
    then have "i \<le> k" using i(2) by (meson not_le)
    then show "xs ! i \<le> y" using assms(1) k by (simp add: sorted_nth_mono)
  qed (use hi in simp_all)
  with True hi show ?thesis by auto
next
  case False
  then have "\<not> (\<exists>x\<in>set xs. h \<le> x)" using i(1,2) by (auto simp: in_set_conv_nth)
  moreover have "Min (set xs) = xs ! 0"
  proof (rule Min_eqI)
    fix y assume "y \<in> set xs"
    then show "xs ! 0 \<le> y" using assms(1) by (auto simp: in_set_conv_nth intro: sorted_nth_mono)
  qed (use assms(2) in simp_all)
  ultimately show ?thesis using False by simp
qed

lemma ring_search_successor:
  assumes "sorted (r_ring r)" "r_ring r \<noteq> []"
  shows "r_ring r ! ring_search r h = successor (set (r_ring r)) h"
proof -
  define i where "i = sort_Search (length (r_ring r)) (\<lambda>i. h \<le> r_ring r ! i)"
  have mono: "h \<le> r_ring r ! b" if "a \<le> b" "b < length (r_ring r)" "h \<le> r_ring r ! a" for a b
    using that sorted_nth_mono [OF assms(1) that(1,2)] by (meson order_trans)
  have "i \<le> length (r_ring r) \<and> (\<forall>k<i. \<not> h \<le> r_ring r ! k) \<and>
      (\<forall>k. i \<le> k \<longrightarrow> k < length (r_ring r) \<longrightarrow> h \<le> r_ring r ! k)"
    unfolding i_def by (rule sort_Search_least) (rule mono)
  then have "if i < length (r_ring r) then (\<exists>x\<in>set (r_ring r). h \<le> x) \<and> Min {x \<in> set (r_ring r). h \<le> x} = r_ring r ! i
      else \<not> (\<exists>x\<in>set (r_ring r). h \<le> x) \<and> Min (set (r_ring r)) = r_ring r ! 0"
    by (intro search_sorted [OF assms]) blast+
  then
  show ?thesis by (simp only: ring_search_def successor_def Let_def i_def [symmetric]) (auto split: if_splits)
qed

lemma successor_mem: "finite S \<Longrightarrow> S \<noteq> {} \<Longrightarrow> successor S h \<in> S"
  using Min_in [of "{x \<in> S. h \<le> x}"] Min_in [of S] by (auto simp: successor_def)

lemma GetNode_owner:
  assumes "ring_ok sha r" "r_ring r \<noteq> []"
  shows "\<exists>n. GetNode sha r k = Inr (Some n) \<and> r_owners r (successor (set (r_ring r)) (hashKey sha k)) = Some n \<and>
    map_of (r_nodes r) (n_ID n) = Some n"
proof -
  let ?h = "successor (set (r_ring r)) (hashKey sha k)"
  have "?h \<in> set (r_ring r)" using assms(2) by (intro successor_mem) auto
  then have "?h \<in> dom (r_owners r)" using assms(1) by (simp add: ring_ok_def)
  then obtain n where n: "r_owners r ?h = Some n" by auto
  have "r_ring r ! ring_search r (hashKey sha k) = ?h"
    using assms by (intro ring_search_successor) (simp_all add: ring_ok_def)
  with n assms show ?thesis by (auto simp: GetNode_def dest: ring_ok_owner)
qed

text \<open>More hashes can only come closer.\<close>

lemma successor_insert:
  assumes "finite S" "finite T" "S \<noteq> {}"
  shows "successor (S \<union> T) h = successor S h \<or> successor (S \<union> T) h \<in> T"
proof (rule ccontr)
  assume n: "\<not> ?thesis"
  let ?u = "successor (S \<union> T) h"
  have "?u \<in> S \<union> T" using assms by (intro successor_mem) auto
  with n have u: "?u \<in> S" by blast
  show False
  proof (cases "\<exists>x\<in>S \<union> T. h \<le> x")
    case True
    then have "?u = Min {x \<in> S \<union> T. h \<le> x}" by (simp add: successor_def)
    moreover have "Min {x \<in> S \<union> T. h \<le> x} \<in> {x \<in> S \<union> T. h \<le> x}" using True assms by (intro Min_in) auto
    ultimately have hu: "h \<le> ?u" by auto
    with u have "successor S h = Min {x \<in> S. h \<le> x}" by (auto simp: successor_def)
    moreover have "Min {x \<in> S. h \<le> x} = ?u"
      using u hu assms \<open>?u = Min {x \<in> S \<union> T. h \<le> x}\<close> by (intro Min_eqI) auto
    ultimately show False using n by simp
  next
    case False
    then have "?u = Min (S \<union> T)" "successor S h = Min S" by (auto simp: successor_def)
    moreover have "Min S = ?u" using u assms calculation(1) by (intro Min_eqI) auto
    ultimately show False using n by simp
  qed
qed

section \<open>Successors\<close>

text \<open>The specification of \<open>GetNSuccessors\<close>: walk the ring once, clockwise, and keep the first
  occurrence of each node.\<close>

definition clockwise :: "Ring \<Rightarrow> nat \<Rightarrow> Node list" where
  "clockwise r start =
     map (\<lambda>j. the (r_owners r (r_ring r ! ((start + j) mod length (r_ring r))))) [0..<length (r_ring r)]"

definition first_of_each :: "Node list \<Rightarrow> Node list" where
  "first_of_each ns = foldl (\<lambda>acc n. if n_ID n \<in> set (map n_ID acc) then acc else acc @ [n]) [] ns"

lemma first_of_each_snoc:
  "first_of_each (ns @ [n]) =
     (if n_ID n \<in> set (map n_ID (first_of_each ns)) then first_of_each ns else first_of_each ns @ [n])"
  by (simp add: first_of_each_def)

lemma first_of_each_ids:
  "distinct (map n_ID (first_of_each ns)) \<and> n_ID ` set (first_of_each ns) = n_ID ` set ns \<and>
   set (first_of_each ns) \<subseteq> set ns"
  by (induction ns rule: rev_induct) (auto simp: first_of_each_snoc first_of_each_def)

lemma first_of_each_prefix: "\<exists>zs. first_of_each (xs @ ys) = first_of_each xs @ zs"
proof (induction ys rule: rev_induct)
  case (snoc y ys)
  then show ?case using first_of_each_snoc [of "xs @ ys" y] by auto
qed simp

lemma length_clockwise [simp]: "length (clockwise r start) = length (r_ring r)"
  by (simp add: clockwise_def)

lemma clockwise_nth:
  assumes "ring_ok sha r" "j < length (r_ring r)"
  shows "r_owners r (r_ring r ! ((start + j) mod length (r_ring r))) = Some (clockwise r start ! j)"
proof -
  have "r_ring r ! ((start + j) mod length (r_ring r)) \<in> set (r_ring r)" using assms(2) by (intro nth_mem mod_less_divisor) linarith
  then have "r_ring r ! ((start + j) mod length (r_ring r)) \<in> dom (r_owners r)" using assms(1) by (simp add: ring_ok_def)
  with assms(2) show ?thesis by (auto simp: clockwise_def)
qed

lemma set_clockwise:
  assumes "ring_ok sha r"
  shows "set (clockwise r start) = ran (r_owners r)"
proof (intro equalityI subsetI)
  fix n assume "n \<in> set (clockwise r start)"
  then show "n \<in> ran (r_owners r)" using clockwise_nth [OF assms] by (auto simp: in_set_conv_nth ran_def)
next
  fix n assume "n \<in> ran (r_owners r)"
  then obtain h where h: "r_owners r h = Some n" by (auto simp: ran_def)
  let ?l = "length (r_ring r)"
  have "h \<in> dom (r_owners r)" using h by blast
  then have "h \<in> set (r_ring r)" using assms by (simp add: ring_ok_def)
  then obtain k where k: "k < ?l" "r_ring r ! k = h" by (auto simp: in_set_conv_nth)
  define j where "j = (k + ?l - start mod ?l) mod ?l"
  have s: "start mod ?l < ?l" using k(1) by (intro mod_less_divisor) linarith
  then have "(start + j) mod ?l = (start mod ?l + (k + ?l - start mod ?l)) mod ?l"
    unfolding j_def by (metis mod_add_eq mod_mod_trivial)
  also have "\<dots> = k" using s k(1) by simp
  finally have "(start + j) mod ?l = k" .
  moreover have "j < ?l" using k(1) unfolding j_def by (intro mod_less_divisor) linarith
  ultimately show "n \<in> set (clockwise r start)"
    using clockwise_nth [OF assms, of j start] h k(2) by (metis length_clockwise nth_mem option.inject)
qed

text \<open>The nodes that own a virtual node.\<close>

definition owner_ids :: "Ring \<Rightarrow> string set" where
  "owner_ids r = n_ID ` ran (r_owners r)"

lemma finite_owner_ids: "ring_ok sha r \<Longrightarrow> finite (owner_ids r)"
proof -
  assume "ring_ok sha r"
  then have "dom (r_owners r) = set (r_ring r)" by (simp add: ring_ok_def)
  then have "finite (dom (r_owners r))" by simp
  then show ?thesis by (simp add: owner_ids_def finite_ran)
qed

lemma length_first_of_each:
  assumes "ring_ok sha r"
  shows "length (first_of_each (clockwise r start)) = card (owner_ids r)"
proof -
  have "card (owner_ids r) = card (set (map n_ID (first_of_each (clockwise r start))))"
    using first_of_each_ids [of "clockwise r start"] by (simp add: owner_ids_def set_clockwise [OF assms])
  also have "\<dots> = length (first_of_each (clockwise r start))"
    using first_of_each_ids [of "clockwise r start"] by (subst distinct_card) simp_all
  finally show ?thesis by simp
qed

lemma successors_loop_done: "\<not> int (length result) < n \<Longrightarrow> successors_loop r start n i seen result = Some (Inr result)"
  by (simp add: successors_loop.simps)

lemma successors_loop_run:
  assumes ok: "ring_ok sha r" and n: "n \<le> int (card (owner_ids r))"
  shows "i \<le> length (r_ring r) \<Longrightarrow> int (length (first_of_each (take i (clockwise r start)))) \<le> n \<Longrightarrow>
    successors_loop r start n i (map n_ID (first_of_each (take i (clockwise r start)))) (first_of_each (take i (clockwise r start))) =
    Some (Inr (take (nat n) (first_of_each (clockwise r start))))"
proof (induction "length (r_ring r) - i" arbitrary: i rule: less_induct)
  case less
  let ?S = "clockwise r start"
  let ?res = "first_of_each (take i ?S)"
  obtain zs where zs: "first_of_each ?S = ?res @ zs"
    using first_of_each_prefix [of "take i ?S" "drop i ?S"] by auto
  show ?case
  proof (cases "int (length ?res) < n")
    case False
    then have "length ?res = nat n" using less.prems(2) by simp
    with False zs show ?thesis by (simp add: successors_loop.simps)
  next
    case True
    have i: "i < length (r_ring r)"
    proof (rule ccontr)
      assume "\<not> i < length (r_ring r)"
      then have "?res = first_of_each ?S" by simp
      with True n show False by (simp add: length_first_of_each [OF ok])
    qed
    then have snoc: "take (Suc i) ?S = take i ?S @ [?S ! i]" by (simp add: take_Suc_conv_app_nth)
    have "int (length (first_of_each (take (Suc i) ?S))) \<le> n"
      using True by (simp add: snoc first_of_each_snoc)
    with less.hyps [of "Suc i"] i have step: "successors_loop r start n (Suc i)
        (map n_ID (first_of_each (take (Suc i) ?S))) (first_of_each (take (Suc i) ?S)) = Some (Inr (take (nat n) (first_of_each ?S)))"
      by simp
    have "r_ring r \<noteq> []" using i by auto
    with step True clockwise_nth [OF ok i, of start] show ?thesis
      by (subst successors_loop.simps) (simp add: snoc first_of_each_snoc split: if_splits)
  qed
qed

text \<open>When fewer nodes own a virtual node than are asked for, no iteration leaves the loop.\<close>

definition stuck :: "digest \<Rightarrow> Ring \<Rightarrow> int \<Rightarrow> string list \<Rightarrow> Node list \<Rightarrow> bool" where
  "stuck sha r n seen result \<longleftrightarrow> ring_ok sha r \<and> r_ring r \<noteq> [] \<and> int (card (owner_ids r)) < n \<and>
     distinct seen \<and> set seen \<subseteq> owner_ids r \<and> length seen = length result"

lemma stuck_step:
  assumes "stuck sha r n seen result"
  shows "int (length result) < n" "length (r_ring r) \<noteq> 0"
    "\<exists>node. r_owners r (r_ring r ! (j mod length (r_ring r))) = Some node \<and>
      (n_ID node \<notin> set seen \<longrightarrow> stuck sha r n (seen @ [n_ID node]) (result @ [node]))"
proof -
  have ok: "ring_ok sha r" "r_ring r \<noteq> []" using assms by (simp_all add: stuck_def)
  have "length result = card (set seen)" using assms by (simp add: stuck_def distinct_card)
  also have "\<dots> \<le> card (owner_ids r)"
    using assms by (intro card_mono finite_owner_ids [OF ok(1)]) (simp add: stuck_def)
  finally show "int (length result) < n" using assms unfolding stuck_def by linarith
  show "length (r_ring r) \<noteq> 0" using ok(2) by simp
  have "r_ring r ! (j mod length (r_ring r)) \<in> set (r_ring r)" using ok(2) by (intro nth_mem mod_less_divisor) simp
  then have "r_ring r ! (j mod length (r_ring r)) \<in> dom (r_owners r)" using ok(1) by (simp add: ring_ok_def)
  then obtain node where node: "r_owners r (r_ring r ! (j mod length (r_ring r))) = Some node" by auto
  then have "n_ID node \<in> owner_ids r" by (auto simp: owner_ids_def ran_def)
  with node assms show "\<exists>node. r_owners r (r_ring r ! (j mod length (r_ring r))) = Some node \<and>
      (n_ID node \<notin> set seen \<longrightarrow> stuck sha r n (seen @ [n_ID node]) (result @ [node]))"
    by (auto simp: stuck_def)
qed

lemma successors_loop_diverges:
  "successors_loop r start n i seen result = Some y \<Longrightarrow> \<not> stuck sha r n seen result"
proof (erule successors_loop.raw_induct [rotated])
  fix loop r start n i seen result y
  assume IH: "\<And>r start n i seen result y. loop r start n i seen result = Some y \<Longrightarrow> \<not> stuck sha r n seen result"
    and body: "(if int (length result) < n
      then if length (r_ring r) = 0 then Some (Inl PanicModZero)
           else case r_owners r (r_ring r ! ((start + i) mod length (r_ring r))) of
                  None \<Rightarrow> Some (Inl PanicNilNode)
                | Some node \<Rightarrow>
                    if n_ID node \<notin> set seen
                    then loop r start n (i + 1) (seen @ [n_ID node]) (result @ [node])
                    else loop r start n (i + 1) seen result
      else Some (Inr result)) = Some y"
  show "\<not> stuck sha r n seen result"
  proof
    assume s: "stuck sha r n seen result"
    from stuck_step(3) [OF s, of "start + i"] obtain node
      where node: "r_owners r (r_ring r ! ((start + i) mod length (r_ring r))) = Some node"
        "n_ID node \<notin> set seen \<longrightarrow> stuck sha r n (seen @ [n_ID node]) (result @ [node])" by blast
    with body stuck_step(1,2) [OF s]
    have "(if n_ID node \<notin> set seen then loop r start n (i + 1) (seen @ [n_ID node]) (result @ [node])
        else loop r start n (i + 1) seen result) = Some y" by simp
    with IH node(2) s show False by (metis (no_types))
  qed
qed

lemma GetNSuccessors_spec:
  assumes ok: "ring_ok sha r" "r_nodes r \<noteq> []" "r_ring r \<noteq> []"
  shows "GetNSuccessors sha r k n =
    (if min n (int (length (r_nodes r))) \<le> int (card (owner_ids r))
     then Some (Inr (take (nat (min n (int (length (r_nodes r))))) (first_of_each (clockwise r (ring_search r (hashKey sha k))))))
     else None)"
proof -
  let ?n = "min n (int (length (r_nodes r)))" and ?s = "ring_search r (hashKey sha k)"
  have g: "GetNSuccessors sha r k n = successors_loop r ?s ?n 0 [] []"
    using ok(2) by (simp add: GetNSuccessors_def min_def)
  show ?thesis
  proof (cases "?n < 0")
    case True
    then have "\<not> 0 < ?n" by linarith
    then have "successors_loop r ?s ?n 0 [] [] = Some (Inr [])" by (intro successors_loop_done) simp
    with True show ?thesis unfolding g by simp
  next
    case False
    show ?thesis
    proof (cases "?n \<le> int (card (owner_ids r))")
      case True
      with successors_loop_run [OF ok(1) True, of 0 ?s] False show ?thesis
        unfolding g by (simp add: first_of_each_def)
    next
      case n: False
      then have "successors_loop r ?s ?n 0 [] [] \<noteq> Some y" for y
        using successors_loop_diverges [of r ?s ?n 0 "[]" "[]" y sha] ok unfolding stuck_def by auto
      with n show ?thesis unfolding g by (auto simp: not_Some_eq [symmetric])
    qed
  qed
qed

section \<open>Rings the operations build\<close>

text \<open>Membership changes over the node names in \<open>N\<close>.\<close>

inductive ring_reach :: "digest \<Rightarrow> int \<Rightarrow> string set \<Rightarrow> Ring \<Rightarrow> bool" for sha vn N where
  ring_new: "ring_reach sha vn N (NewRing vn)"
| ring_add: "ring_reach sha vn N r \<Longrightarrow> nid \<in> N \<Longrightarrow> ring_reach sha vn N (AddNode sha nid a r)"
| ring_remove: "ring_reach sha vn N r \<Longrightarrow> nid \<in> N \<Longrightarrow> ring_reach sha vn N (snd (RemoveNode sha nid r))"

definition virtual_count :: "int \<Rightarrow> int" where
  "virtual_count vn = (if vn \<le> 0 then DefaultVirtualNodes else vn)"

definition no_collisions :: "digest \<Rightarrow> int \<Rightarrow> string set \<Rightarrow> bool" where
  "no_collisions sha vn N \<longleftrightarrow> (\<forall>a\<in>N. \<forall>b\<in>N. \<forall>i<nat (virtual_count vn). \<forall>j<nat (virtual_count vn).
     virtual_hash sha a i = virtual_hash sha b j \<longrightarrow> a = b)"

text \<open>Every member owns all its virtual nodes.\<close>

definition ring_full :: "digest \<Rightarrow> Ring \<Rightarrow> bool" where
  "ring_full sha r \<longleftrightarrow> (\<forall>nid n. map_of (r_nodes r) nid = Some n \<longrightarrow> (\<forall>h\<in>hashes sha r nid. r_owners r h = Some n))"

lemma ring_reach_ok: "ring_reach sha vn N r \<Longrightarrow> ring_ok sha r"
  by (induction rule: ring_reach.induct) (auto simp: ring_ok_new ring_ok_add ring_ok_remove)

lemma ring_reach_names: "ring_reach sha vn N r \<Longrightarrow> fst ` set (r_nodes r) \<subseteq> N \<and> r_virtualNodes r = virtual_count vn"
proof (induction rule: ring_reach.induct)
  case ring_new
  then show ?case by (simp add: NewRing_def virtual_count_def)
next
  case (ring_add r nid a)
  then show ?case by (auto simp: AddNode_sel AList.dom_update)
next
  case (ring_remove r nid)
  show ?case
  proof (cases "map_of (r_nodes r) nid")
    case None
    with ring_remove show ?thesis by (simp add: RemoveNode_unknown)
  next
    case (Some n)
    have "fst ` set (AList.delete nid (r_nodes r)) \<subseteq> fst ` set (r_nodes r)"
      by (auto simp: AList.delete_eq)
    with ring_remove show ?thesis
      by (auto simp: RemoveNode_known [OF ring_reach_ok [OF ring_remove(1)] Some])
  qed
qed

lemma no_collisions_hashes:
  assumes "no_collisions sha vn N" "r_virtualNodes r = virtual_count vn" "a \<in> N" "b \<in> N"
    "h \<in> hashes sha r a" "h \<in> hashes sha r b"
  shows "a = b"
proof -
  obtain i j where "i < nat (virtual_count vn)" "j < nat (virtual_count vn)" "h = virtual_hash sha a i" "h = virtual_hash sha b j"
    using assms(2,5,6) by (auto simp: hashes_def)
  with assms(1,3,4) show ?thesis unfolding no_collisions_def by metis
qed

lemma ring_reach_full: "ring_reach sha vn N r \<Longrightarrow> no_collisions sha vn N \<Longrightarrow> ring_full sha r"
proof (induction rule: ring_reach.induct)
  case ring_new
  then show ?case by (simp add: ring_full_def NewRing_def)
next
  case (ring_add r nid a)
  have names: "fst ` set (r_nodes r) \<subseteq> N" "r_virtualNodes r = virtual_count vn"
    using ring_reach_names [OF ring_add(1)] by simp_all
  show ?case
    unfolding ring_full_def
  proof (intro allI impI ballI)
    fix m n h assume n: "map_of (r_nodes (AddNode sha nid a r)) m = Some n" and "h \<in> hashes sha (AddNode sha nid a r) m"
    then have h: "h \<in> hashes sha r m" by (simp add: hashes_def AddNode_sel)
    show "r_owners (AddNode sha nid a r) h = Some n"
    proof (cases "m = nid")
      case True
      with n h show ?thesis by (simp add: AddNode_sel AList.update_conv')
    next
      case False
      with n have m: "map_of (r_nodes r) m = Some n" by (simp add: AddNode_sel AList.update_conv')
      then have "m \<in> N" using names(1) by (metis domI dom_map_of_conv_image_fst subsetD)
      then have "h \<notin> hashes sha r nid"
        using no_collisions_hashes [OF ring_add(4) names(2) _ ring_add(2) h] False by blast
      with m h ring_add(3,4) show ?thesis by (simp add: AddNode_sel ring_full_def)
    qed
  qed
next
  case (ring_remove r nid)
  show ?case
  proof (cases "map_of (r_nodes r) nid")
    case None
    with ring_remove show ?thesis by (simp add: RemoveNode_unknown)
  next
    case (Some k)
    have names: "fst ` set (r_nodes r) \<subseteq> N" "r_virtualNodes r = virtual_count vn"
      using ring_reach_names [OF ring_remove(1)] by simp_all
    show ?thesis
      unfolding ring_full_def
    proof (intro allI impI ballI)
      fix m n h
      assume "map_of (r_nodes (snd (RemoveNode sha nid r))) m = Some n" "h \<in> hashes sha (snd (RemoveNode sha nid r)) m"
      then have m: "m \<noteq> nid" "map_of (r_nodes r) m = Some n" and h: "h \<in> hashes sha r m"
        by (auto simp: RemoveNode_known [OF ring_reach_ok [OF ring_remove(1)] Some] AList.delete_conv' hashes_def split: if_splits)
      have "m \<in> N" using m(2) names(1) by (metis domI dom_map_of_conv_image_fst subsetD)
      then have "h \<notin> hashes sha r nid"
        using no_collisions_hashes [OF ring_remove(4) names(2) _ ring_remove(2) h] m(1) by blast
      with m h ring_remove(3,4) show "r_owners (snd (RemoveNode sha nid r)) h = Some n"
        by (simp add: RemoveNode_known [OF ring_reach_ok [OF ring_remove(1)] Some] ring_full_def)
    qed
  qed
qed

lemma full_owner_ids:
  assumes "ring_ok sha r" "ring_full sha r"
  shows "owner_ids r = fst ` set (r_nodes r)"
proof (intro equalityI subsetI)
  fix x assume "x \<in> owner_ids r"
  then obtain n h where "x = n_ID n" "r_owners r h = Some n" by (auto simp: owner_ids_def ran_def)
  with ring_ok_owner [OF assms(1)] have "x \<in> dom (map_of (r_nodes r))" by blast
  then show "x \<in> fst ` set (r_nodes r)" by (simp add: dom_map_of_conv_image_fst)
next
  fix x assume "x \<in> fst ` set (r_nodes r)"
  then have "x \<in> dom (map_of (r_nodes r))" by (simp add: dom_map_of_conv_image_fst)
  then obtain n where n: "map_of (r_nodes r) x = Some n" by auto
  have "virtual_hash sha x 0 \<in> hashes sha r x" using assms(1) by (auto simp: ring_ok_def hashes_def)
  with n assms(2) have "r_owners r (virtual_hash sha x 0) = Some n" by (auto simp: ring_full_def)
  then have "n \<in> ran (r_owners r)" by (auto simp: ran_def)
  with ring_ok_member [OF assms(1) n] show "x \<in> owner_ids r" by (auto simp: owner_ids_def)
qed

lemma full_successors:
  assumes ok: "ring_ok sha r" "ring_full sha r" "r_nodes r \<noteq> []"
  shows "GetNSuccessors sha r k n = Some (Inr (take (nat (min n (Ring_Size r)))
    (first_of_each (clockwise r (ring_search r (hashKey sha k))))))" and "r_ring r \<noteq> []"
    and "int (card (owner_ids r)) = Ring_Size r"
proof -
  have "owner_ids r = set (map fst (r_nodes r))" using full_owner_ids [OF ok(1,2)] by simp
  moreover have "distinct (map fst (r_nodes r))" using ok(1) by (simp add: ring_ok_def)
  ultimately have c: "card (owner_ids r) = length (r_nodes r)" using distinct_card [of "map fst (r_nodes r)"] by simp
  then have "owner_ids r \<noteq> {}" using ok(3) by auto
  then obtain h m where "r_owners r h = Some m" by (auto simp: owner_ids_def ran_def)
  then have "h \<in> set (r_ring r)" using ok(1) unfolding ring_ok_def by blast
  then show ne: "r_ring r \<noteq> []" by auto
  show "GetNSuccessors sha r k n = Some (Inr (take (nat (min n (Ring_Size r)))
    (first_of_each (clockwise r (ring_search r (hashKey sha k))))))"
    using GetNSuccessors_spec [OF ok(1,3) ne] c by (simp add: Ring_Size_def)
  show "int (card (owner_ids r)) = Ring_Size r" by (simp add: c Ring_Size_def)
qed

section \<open>Properties\<close>

text \<open>
  C26. The ring's invariant, in every state its operations build, for any hash function: the hashes
  are sorted, each has an owner, the owner is a current member, and the hash is one of its
  virtual nodes.
\<close>

theorem ring_invariant:
  assumes "ring_reach sha vn N r"
  shows "sorted (r_ring r) \<and> (\<forall>h\<in>set (r_ring r). \<exists>n. r_owners r h = Some n \<and>
    map_of (r_nodes r) (n_ID n) = Some n \<and> (\<exists>i<nat (r_virtualNodes r). h = virtual_hash sha (n_ID n) i))"
proof -
  have ok: "ring_ok sha r" by (rule ring_reach_ok [OF assms])
  then have "\<exists>n. r_owners r h = Some n" if "h \<in> set (r_ring r)" for h
    using that unfolding ring_ok_def by blast
  then show ?thesis
    using ok ring_ok_owner [OF ok] unfolding hashes_def
    by (auto simp: ring_ok_def image_iff) (metis atLeastLessThan_iff)
qed

text \<open>A small ring for the examples: the digest is the first bytes of the key, one virtual node per node.\<close>

definition toy_sha :: digest where
  "toy_sha k = take 4 (k @ [CHR 0x00, CHR 0x00, CHR 0x00, CHR 0x00])"

definition toy_ring :: Ring where
  "toy_ring = AddNode toy_sha ''b'' ''hostb'' (AddNode toy_sha ''d'' ''hostd'' (NewRing 1))"

lemma toy_reach: "ring_reach toy_sha 1 {''b'', ''d''} toy_ring"
  unfolding toy_ring_def by (intro ring_reach.intros) simp_all

lemma toy_hash: "virtual_hash toy_sha ''b'' 0 = 0x62233000" "virtual_hash toy_sha ''d'' 0 = 0x64233000"
  "hashKey toy_sha ''c'' = 0x63000000" "hashKey toy_sha ''z'' = 0x7a000000"
  by (simp_all add: virtual_hash_def hashKey_def toy_sha_def be_decode_def fmt_d_def dec_digits.simps digit_char_def)

lemma toy_sel:
  "r_nodes toy_ring = [(''d'', \<lparr>n_ID = ''d'', n_Address = ''hostd''\<rparr>), (''b'', \<lparr>n_ID = ''b'', n_Address = ''hostb''\<rparr>)]"
  "r_ring toy_ring = [0x62233000, 0x64233000]" "r_virtualNodes toy_ring = 1"
  "r_owners toy_ring = [0x64233000 \<mapsto> \<lparr>n_ID = ''d'', n_Address = ''hostd''\<rparr>, 0x62233000 \<mapsto> \<lparr>n_ID = ''b'', n_Address = ''hostb''\<rparr>]"
  by (simp_all add: toy_ring_def AddNode_sel NewRing_def hashes_def toy_hash fun_eq_iff)

lemma toy_no_collisions: "no_collisions toy_sha 1 {''b'', ''d''}"
  by (simp add: no_collisions_def virtual_count_def toy_hash)

theorem ring_invariant_witness:
  "sorted (r_ring toy_ring) \<and> (\<exists>n. r_owners toy_ring 0x62233000 = Some n \<and> map_of (r_nodes toy_ring) (n_ID n) = Some n)"
  using ring_invariant [OF toy_reach] by (auto simp: toy_sel)

text \<open>
  C30. Lookup: on a ring with hashes, \<open>GetNode\<close> returns a member, the owner of the first hash at or
  after the key's hash, or of the smallest hash when there is none (the binary search and its
  wrap-around agree with that definition).
\<close>

theorem get_node_successor:
  assumes "ring_reach sha vn N r" "r_ring r \<noteq> []"
  shows "\<exists>n. GetNode sha r k = Inr (Some n) \<and> map_of (r_nodes r) (n_ID n) = Some n \<and>
    r_owners r (if \<exists>x\<in>set (r_ring r). hashKey sha k \<le> x then Min {x \<in> set (r_ring r). hashKey sha k \<le> x}
      else Min (set (r_ring r))) = Some n"
  using GetNode_owner [OF ring_reach_ok [OF assms(1)] assms(2), of k] unfolding successor_def by blast

theorem get_node_successor_witness:
  "GetNode toy_sha toy_ring ''c'' = Inr (Some \<lparr>n_ID = ''d'', n_Address = ''hostd''\<rparr>) \<and>
   GetNode toy_sha toy_ring ''z'' = Inr (Some \<lparr>n_ID = ''b'', n_Address = ''hostb''\<rparr>)"
proof -
  have m: "{x. (x = (0x62233000 :: 32 word) \<or> x = 0x64233000) \<and> 0x63000000 \<le> x} = {0x64233000}" by auto
  have "\<exists>n. GetNode toy_sha toy_ring ''c'' = Inr (Some n) \<and> [0x64233000 \<mapsto> \<lparr>n_ID = ''d'', n_Address = ''hostd''\<rparr>,
      0x62233000 \<mapsto> \<lparr>n_ID = ''b'', n_Address = ''hostb''\<rparr>] (0x64233000 :: 32 word) = Some n"
    using get_node_successor [OF toy_reach, of "''c''"] by (simp add: toy_sel toy_hash m)
  moreover have "\<exists>n. GetNode toy_sha toy_ring ''z'' = Inr (Some n) \<and> [0x64233000 \<mapsto> \<lparr>n_ID = ''d'', n_Address = ''hostd''\<rparr>,
      0x62233000 \<mapsto> \<lparr>n_ID = ''b'', n_Address = ''hostb''\<rparr>] (0x62233000 :: 32 word) = Some n"
    using get_node_successor [OF toy_reach, of "''z''"] by (simp add: toy_sel toy_hash)
  ultimately show ?thesis by simp
qed

text \<open>
  C12. Replica placement: without hash collisions between the nodes, \<open>GetNSuccessors\<close> returns (the
  loop ends) and gives \<open>min n |nodes|\<close> different members, in the order in which they first
  appear clockwise from the key.
\<close>

theorem successors_distinct:
  assumes "ring_reach sha vn N r" "no_collisions sha vn N" "r_nodes r \<noteq> []" "0 \<le> n"
  shows "\<exists>ns. GetNSuccessors sha r k n = Some (Inr ns) \<and> int (length ns) = min n (Ring_Size r) \<and>
    distinct (map n_ID ns) \<and> (\<forall>x\<in>set ns. map_of (r_nodes r) (n_ID x) = Some x) \<and>
    ns = take (nat (min n (Ring_Size r))) (first_of_each (clockwise r (ring_search r (hashKey sha k))))"
proof -
  let ?f = "first_of_each (clockwise r (ring_search r (hashKey sha k)))"
  have ok: "ring_ok sha r" by (rule ring_reach_ok [OF assms(1)])
  have full: "ring_full sha r" by (rule ring_reach_full [OF assms(1,2)])
  have len: "int (length ?f) = Ring_Size r"
    using length_first_of_each [OF ok] full_successors(3) [OF ok full assms(3)] by simp
  have mem: "map_of (r_nodes r) (n_ID x) = Some x" if "x \<in> set ?f" for x
  proof -
    have "x \<in> ran (r_owners r)" using that first_of_each_ids set_clockwise [OF ok] by blast
    then show ?thesis using ring_ok_owner [OF ok] by (auto simp: ran_def)
  qed
  have "distinct (map n_ID (take m ?f))" for m
    using first_of_each_ids by (simp add: take_map [symmetric] distinct_take)
  then show ?thesis
    using full_successors(1) [OF ok full assms(3), of k n] len mem assms(4) by (auto dest: in_set_takeD)
qed

theorem successors_distinct_witness:
  "GetNSuccessors toy_sha toy_ring ''c'' 5 =
     Some (Inr [\<lparr>n_ID = ''d'', n_Address = ''hostd''\<rparr>, \<lparr>n_ID = ''b'', n_Address = ''hostb''\<rparr>])"
proof -
  have s: "ring_search toy_ring 0x63000000 = 1"
    by (simp add: ring_search_def sort_Search_def search_loop.simps toy_sel)
  have "clockwise toy_ring 1 = [\<lparr>n_ID = ''d'', n_Address = ''hostd''\<rparr>, \<lparr>n_ID = ''b'', n_Address = ''hostb''\<rparr>]"
    by (simp add: clockwise_def toy_sel)
  then show ?thesis
    using successors_distinct [OF toy_reach toy_no_collisions, of 5 "''c''"]
    by (simp add: toy_sel toy_hash s Ring_Size_def first_of_each_def)
qed

text \<open>
  C17. With collisions the loop may run forever: \<open>AddNode\<close> lets a later node take over a colliding
  hash, and \<open>GetNSuccessors\<close> still asks for as many nodes as are members. It returns exactly
  when at least that many members own a hash.
\<close>

theorem successors_terminate_iff:
  assumes "ring_reach sha vn N r" "r_ring r \<noteq> []" "r_nodes r \<noteq> []"
  shows "(\<exists>y. GetNSuccessors sha r k n = Some y) \<longleftrightarrow> min n (Ring_Size r) \<le> int (card (n_ID ` ran (r_owners r)))"
  using GetNSuccessors_spec [OF ring_reach_ok [OF assms(1)] assms(3,2), of k n]
  by (simp add: Ring_Size_def owner_ids_def)

text \<open>Two nodes, and a digest that does not tell them apart.\<close>

definition clash_ring :: Ring where
  "clash_ring = AddNode (\<lambda>_. []) ''b'' ''hostb'' (AddNode (\<lambda>_. []) ''d'' ''hostd'' (NewRing 1))"

theorem successors_terminate_iff_witness: "GetNSuccessors (\<lambda>_. []) clash_ring ''k'' 2 = None"
proof -
  have r: "ring_reach (\<lambda>_. []) 1 UNIV clash_ring" unfolding clash_ring_def by (intro ring_reach.intros) simp_all
  have h: "virtual_hash (\<lambda>_. []) x i = 0" for x i by (simp add: virtual_hash_def hashKey_def be_decode_def)
  have sel: "r_ring clash_ring \<noteq> []" "r_nodes clash_ring \<noteq> []" "Ring_Size clash_ring = 2"
      "r_owners clash_ring = [0 \<mapsto> \<lparr>n_ID = ''b'', n_Address = ''hostb''\<rparr>]"
    by (simp_all add: clash_ring_def AddNode_sel NewRing_def hashes_def h fun_eq_iff Ring_Size_def)
  have "\<not> (\<exists>y. GetNSuccessors (\<lambda>_. []) clash_ring ''k'' 2 = Some y)"
    using successors_terminate_iff [OF r sel(1,2), of "''k''" 2] by (simp add: sel)
  then show ?thesis by (metis not_Some_eq)
qed

text \<open>
  C24. Minimal movement, adding: after a node has joined, every key is served either by the node that
  served it before or by the new one, whatever the hash function does.
\<close>

theorem add_node_moves_only_to_new:
  assumes "ring_reach sha vn N r" "GetNode sha r k = Inr (Some m)" "nid \<noteq> n_ID m"
  shows "GetNode sha (AddNode sha nid a r) k \<in> {Inr (Some m), Inr (Some \<lparr>n_ID = nid, n_Address = a\<rparr>)}"
proof -
  let ?r = "AddNode sha nid a r"
  have ok: "ring_ok sha r" "ring_ok sha ?r" using ring_reach_ok [OF assms(1)] ring_ok_add by blast+
  have ne: "r_ring r \<noteq> []" using assms(2) by (auto simp: GetNode_def)
  have set: "set (r_ring ?r) = set (r_ring r) \<union> hashes sha r nid" by (simp add: AddNode_sel hashes_def)
  then have ne': "r_ring ?r \<noteq> []" using ne by (metis Un_empty set_empty)
  have old: "r_owners r (successor (set (r_ring r)) (hashKey sha k)) = Some m"
    using GetNode_owner [OF ok(1) ne, of k] assms(2) by auto
  obtain n where n: "GetNode sha ?r k = Inr (Some n)" "r_owners ?r (successor (set (r_ring ?r)) (hashKey sha k)) = Some n"
    using GetNode_owner [OF ok(2) ne', of k] by auto
  have "finite (hashes sha r nid)" by (simp add: hashes_def)
  then have "successor (set (r_ring ?r)) (hashKey sha k) = successor (set (r_ring r)) (hashKey sha k) \<or>
      successor (set (r_ring ?r)) (hashKey sha k) \<in> hashes sha r nid"
    using successor_insert [of "set (r_ring r)" "hashes sha r nid"] ne unfolding set by simp
  then show ?thesis using n old by (auto simp: AddNode_sel split: if_splits)
qed

theorem add_node_moves_only_to_new_witness:
  "GetNode toy_sha (AddNode toy_sha ''c'' ''hostc'' toy_ring) ''z'' \<in>
    {Inr (Some \<lparr>n_ID = ''b'', n_Address = ''hostb''\<rparr>), Inr (Some \<lparr>n_ID = ''c'', n_Address = ''hostc''\<rparr>)}"
proof -
  have "ring_search toy_ring 0x7a000000 = 0"
    by (simp add: ring_search_def sort_Search_def search_loop.simps toy_sel)
  then have "GetNode toy_sha toy_ring ''z'' = Inr (Some \<lparr>n_ID = ''b'', n_Address = ''hostb''\<rparr>)"
    by (simp add: GetNode_def toy_sel toy_hash)
  from add_node_moves_only_to_new [OF toy_reach this, of "''c''" "''hostc''"] show ?thesis by simp
qed

text \<open>
  C25. Minimal movement, removing: without collisions, every key that another node served is still
  served by it after a node has left, and the removed node serves none.
\<close>

theorem remove_node_keeps_others:
  assumes "ring_reach sha vn N r" "no_collisions sha vn N" "nid \<in> N"
    and "GetNode sha r k = Inr (Some m)" "n_ID m \<noteq> nid" "RemoveNode sha nid r = (None, r')"
  shows "GetNode sha r' k = Inr (Some m) \<and> nid \<notin> n_ID ` ran (r_owners r')"
proof -
  have ok: "ring_ok sha r" by (rule ring_reach_ok [OF assms(1)])
  have ne: "r_ring r \<noteq> []" using assms(4) by (auto simp: GetNode_def)
  have names: "fst ` set (r_nodes r) \<subseteq> N" "r_virtualNodes r = virtual_count vn"
    using ring_reach_names [OF assms(1)] by simp_all
  obtain n where "map_of (r_nodes r) nid = Some n"
    using assms(6) by (cases "map_of (r_nodes r) nid") (auto simp: RemoveNode_unknown)
  from RemoveNode_known [OF ok this] assms(6)
  have r': "r_ring r' = filter (\<lambda>h. h \<notin> hashes sha r nid) (r_ring r)"
      "r_owners r' = (\<lambda>h. if h \<in> hashes sha r nid then None else r_owners r h)" by auto
  have ok': "ring_ok sha r'" using ring_ok_remove [OF ok, of nid] assms(6) by simp
  let ?h = "successor (set (r_ring r)) (hashKey sha k)"
  have old: "r_owners r ?h = Some m" "map_of (r_nodes r) (n_ID m) = Some m"
    using GetNode_owner [OF ok ne, of k] assms(4) by auto
  have "n_ID m \<in> N" using old(2) names(1) by (metis domI dom_map_of_conv_image_fst subsetD)
  then have h: "?h \<notin> hashes sha r nid"
    using no_collisions_hashes [OF assms(2) names(2) _ assms(3)] ring_ok_owner [OF ok old(1)] assms(5) by blast
  have "?h \<in> set (r_ring r)" using ne by (intro successor_mem) auto
  with h have mem: "?h \<in> set (r_ring r')" by (simp add: r')
  then have ne': "r_ring r' \<noteq> []" by auto
  have split: "set (r_ring r) = set (r_ring r') \<union> {x \<in> set (r_ring r). x \<in> hashes sha r nid}" by (auto simp: r')
  have "successor (set (r_ring r')) (hashKey sha k) = ?h"
    using successor_insert [of "set (r_ring r')" "{x \<in> set (r_ring r). x \<in> hashes sha r nid}" "hashKey sha k"]
      ne' h split by simp
  then have "GetNode sha r' k = Inr (Some m)"
    using GetNode_owner [OF ok' ne', of k] old(1) h by (auto simp: r')
  moreover have "nid \<notin> n_ID ` ran (r_owners r')"
    using ring_ok_owner [OF ok] by (auto simp: r' ran_def split: if_splits)
  ultimately show ?thesis by simp
qed

theorem remove_node_keeps_others_witness:
  "\<exists>r'. RemoveNode toy_sha ''d'' toy_ring = (None, r') \<and>
     GetNode toy_sha r' ''z'' = Inr (Some \<lparr>n_ID = ''b'', n_Address = ''hostb''\<rparr>)"
proof -
  have "ring_search toy_ring 0x7a000000 = 0"
    by (simp add: ring_search_def sort_Search_def search_loop.simps toy_sel)
  then have g: "GetNode toy_sha toy_ring ''z'' = Inr (Some \<lparr>n_ID = ''b'', n_Address = ''hostb''\<rparr>)"
    by (simp add: GetNode_def toy_sel toy_hash)
  obtain r' where r': "RemoveNode toy_sha ''d'' toy_ring = (None, r')"
    using RemoveNode_known [OF ring_reach_ok [OF toy_reach], of "''d''"] by (auto simp: toy_sel)
  from remove_node_keeps_others [OF toy_reach toy_no_collisions _ g _ r'] r' show ?thesis by simp
qed

end
