(* ===== verification/KV_Json.thy ===== *)
theory KV_Json
  imports KV_Prelude
begin

text \<open>
  What the program uses of \<open>encoding/json\<close>: the values its encoder writes and what its decoder
  stores in a struct. Documents are trees, not text. Strings are byte strings; the encoder replaces
  every byte that is not part of a UTF-8 sequence by the replacement character, and the decoder
  matches the names of fields without regard to case.
\<close>

section \<open>Documents\<close>

text \<open>\<open>JNum\<close>: a number written as an integer; \<open>JFloat\<close>: any other number.\<close>

datatype json =
    JNull | JBool bool | JNum int | JFloat string | JStr string | JArr "json list" | JObj "(string \<times> json) list"

section \<open>UTF-8\<close>

definition in_range :: "nat \<Rightarrow> nat \<Rightarrow> char \<Rightarrow> bool" where
  "in_range lo hi c \<longleftrightarrow> lo \<le> of_char c \<and> (of_char c :: nat) \<le> hi"

abbreviation cont :: "char \<Rightarrow> bool" where "cont \<equiv> in_range 0x80 0xBF"

text \<open>The range allowed for the byte after a given first byte, and the length of the sequence.\<close>

definition utf8_second :: "char \<Rightarrow> nat \<times> nat" where
  "utf8_second b =
     (if b = CHR 0xE0 then (0xA0, 0xBF) else if b = CHR 0xED then (0x80, 0x9F)
      else if b = CHR 0xF0 then (0x90, 0xBF) else if b = CHR 0xF4 then (0x80, 0x8F) else (0x80, 0xBF))"

definition utf8_size :: "char \<Rightarrow> nat" where
  "utf8_size b =
     (if in_range 0 0x7F b then 1 else if in_range 0xC2 0xDF b then 2
      else if in_range 0xE0 0xEF b then 3 else if in_range 0xF0 0xF4 b then 4 else 0)"

text \<open>The length of the sequence a byte string starts with; 0 when it starts with none.\<close>

fun rune_len :: "bytes \<Rightarrow> nat" where
  "rune_len [] = 0"
| "rune_len (b # bs) =
     (let n = utf8_size b
      in if n \<le> 1 then n
         else if length bs < n - 1 then 0
         else if \<not> in_range (fst (utf8_second b)) (snd (utf8_second b)) (hd bs) then 0
         else if list_all cont (take (n - 2) (tl bs)) then n else 0)"

definition replacement_char :: bytes where "replacement_char = [CHR 0xEF, CHR 0xBF, CHR 0xBD]"

lemma rune_len_le: "rune_len bs \<le> length bs"
  by (cases bs) (auto simp: Let_def)

function utf8_coerce :: "bytes \<Rightarrow> bytes" where
  "utf8_coerce [] = []"
| "utf8_coerce (b # bs) =
     (if rune_len (b # bs) = 0 then replacement_char @ utf8_coerce bs
      else take (rune_len (b # bs)) (b # bs) @ utf8_coerce (drop (rune_len (b # bs)) (b # bs)))"
  by pat_completeness auto
termination by (relation "measure length") (simp_all del: rune_len.simps)

function utf8_valid :: "bytes \<Rightarrow> bool" where
  "utf8_valid [] = True"
| "utf8_valid (b # bs) = (if rune_len (b # bs) = 0 then False else utf8_valid (drop (rune_len (b # bs)) (b # bs)))"
  by pat_completeness auto
termination by (relation "measure length") (simp_all del: rune_len.simps)

text \<open>A string, encoded and decoded again.\<close>

definition jstring :: "bytes \<Rightarrow> json" where "jstring s = JStr (utf8_coerce s)"

lemma rune_len_append:
  assumes "rune_len x \<noteq> 0"
  shows "rune_len (take (rune_len x) x @ r) = rune_len x"
proof -
  obtain b bs where x: "x = b # bs" using assms by (cases x) auto
  let ?n = "utf8_size b"
  have n: "rune_len x = ?n" using assms by (auto simp: x Let_def split: if_splits)
  show ?thesis
  proof (cases "?n \<le> 1")
    case True
    with assms n show ?thesis by (cases "?n") (auto simp: x)
  next
    case False
    then have l: "?n - 1 \<le> length bs" and ok: "in_range (fst (utf8_second b)) (snd (utf8_second b)) (hd bs)"
      and c: "list_all cont (take (?n - 2) (tl bs))"
      using assms n by (auto simp: x Let_def split: if_splits)
    obtain d ds where bs: "bs = d # ds" using l False by (cases bs) auto
    have t: "take ?n x = b # d # take (?n - 2) ds" using False by (auto simp: x bs take_Cons' eval_nat_numeral)
    show ?thesis using False l ok c unfolding n t by (simp add: bs Let_def)
  qed
qed

lemma utf8_valid_append:
  assumes "rune_len x \<noteq> 0" "utf8_valid y"
  shows "utf8_valid (take (rune_len x) x @ y)"
proof -
  obtain b bs where t: "take (rune_len x) x @ y = b # bs" using assms(1) by (cases x; cases "rune_len x") auto
  have "rune_len (b # bs) = rune_len x" using rune_len_append [OF assms(1), of y] by (simp add: t)
  moreover have "drop (rune_len x) (b # bs) = y" using rune_len_le [of x] by (simp add: t [symmetric])
  ultimately show ?thesis using assms by (simp add: t del: rune_len.simps)
qed

lemma utf8_coerce_id: "utf8_valid s \<Longrightarrow> utf8_coerce s = s"
  by (induction s rule: utf8_coerce.induct) (simp_all del: rune_len.simps split: if_splits)

lemma utf8_coerce_valid: "utf8_valid (utf8_coerce s)"
proof (induction s rule: utf8_coerce.induct)
  case (2 b bs)
  have r: "take (rune_len replacement_char) replacement_char = replacement_char" "rune_len replacement_char \<noteq> 0"
    by code_simp+
  show ?case
  proof (cases "rune_len (b # bs) = 0")
    case True
    then show ?thesis using utf8_valid_append [OF r(2)] 2(1) by (simp add: r(1) del: rune_len.simps)
  next
    case False
    then show ?thesis using utf8_valid_append [OF False] 2(2) by (simp del: rune_len.simps)
  qed
qed simp

lemma utf8_coerce_iff: "utf8_coerce s = s \<longleftrightarrow> utf8_valid s"
  using utf8_coerce_id utf8_coerce_valid by metis

lemma utf8_coerce_idem [simp]: "utf8_coerce (utf8_coerce s) = utf8_coerce s"
  by (simp add: utf8_coerce_id utf8_coerce_valid)

declare utf8_coerce.simps [simp del] utf8_valid.simps [simp del] rune_len.simps [simp del]

section \<open>Decoding\<close>

text \<open>Names of fields match after case folding; two characters outside ASCII fold to letters.\<close>

definition ascii_lower :: "char \<Rightarrow> char" where
  "ascii_lower c = (if in_range 0x41 0x5A c then char_of (of_char c + 32 :: nat) else c)"

fun fold_name :: "string \<Rightarrow> string" where
  "fold_name [] = []"
| "fold_name (c # cs) =
     (if c = CHR 0xC5 \<and> take 1 cs = [CHR 0xBF] then CHR ''s'' # fold_name (drop 1 cs)
      else if c = CHR 0xE2 \<and> take 2 cs = [CHR 0x84, CHR 0xAA] then CHR ''k'' # fold_name (drop 2 cs)
      else ascii_lower c # fold_name cs)"

definition names :: "string \<Rightarrow> string \<Rightarrow> bool" where
  "names field member \<longleftrightarrow> fold_name member = fold_name field"

text \<open>Each decoder takes the value the field has already; \<open>None\<close> is a type error. \<open>null\<close> leaves
  strings and numbers as they are and empties a slice.\<close>

fun decode_string :: "json \<Rightarrow> string \<Rightarrow> string option" where
  "decode_string (JStr s) old = Some s"
| "decode_string JNull old = Some old"
| "decode_string _ old = None"

fun decode_int64 :: "json \<Rightarrow> int \<Rightarrow> int option" where
  "decode_int64 (JNum n) old = (if int64_range n then Some n else None)"
| "decode_int64 JNull old = Some old"
| "decode_int64 _ old = None"

text \<open>The members of an object in order, each stored in the field it names.\<close>

fun decode_members :: "(string \<times> json) list \<Rightarrow> (string \<Rightarrow> json \<Rightarrow> 'a \<Rightarrow> 'a option) \<Rightarrow> 'a \<Rightarrow> 'a option" where
  "decode_members [] field x = Some x"
| "decode_members ((n, v) # ms) field x = Option.bind (field n v x) (decode_members ms field)"

definition decode_struct :: "(string \<Rightarrow> json \<Rightarrow> 'a \<Rightarrow> 'a option) \<Rightarrow> json \<Rightarrow> 'a \<Rightarrow> 'a option" where
  "decode_struct field j x =
     (case j of JObj ms \<Rightarrow> decode_members ms field x | JNull \<Rightarrow> Some x | _ \<Rightarrow> None)"

definition decode_slice :: "(json \<Rightarrow> 'a option) \<Rightarrow> json \<Rightarrow> 'a list option" where
  "decode_slice elem j =
     (case j of JArr xs \<Rightarrow> those (map elem xs) | JNull \<Rightarrow> Some [] | _ \<Rightarrow> None)"

end
