(* ===== verification/KV_Rpc.thy ===== *)
theory KV_Rpc
  imports KV_Json
begin

text \<open>
  \<open>replication/rpc_client.go\<close>: the calls one node makes to another, over the HTTP API. The
  transport is an argument; the bodies are JSON documents.
\<close>

section \<open>HTTP\<close>

datatype http_method = GET | POST | DELETE | OPTIONS

record http_request =
  rq_method :: http_method
  rq_url :: string
  rq_body :: "json option"

text \<open>A response has a status and the document its body starts with, if it is one.\<close>

datatype http_outcome = HttpFailed | HttpResponse (status: int) (body: "json option")

text \<open>\<open>net_url_ok\<close>: whether \<open>http.NewRequestWithContext\<close> accepts the address; \<open>net_do\<close>: what
  \<open>http.Client.Do\<close> gives for a request.\<close>

record network =
  net_url_ok :: "string \<Rightarrow> bool"
  net_do :: "http_request \<Rightarrow> http_outcome"

text \<open>A call with a context that is already cancelled fails without an answer.\<close>

definition client_do :: "network \<Rightarrow> bool \<Rightarrow> http_request \<Rightarrow> http_outcome" where
  "client_do net cancelled req = (if cancelled then HttpFailed else net_do net req)"

section \<open>The client\<close>

record RemoteValue =
  rv_NodeID :: string
  rv_Data :: bytes
  rv_Timestamp :: int
  rv_Found :: bool

datatype rpc_error = ErrRequest | ErrTransport | ErrStatus int | ErrDecodeResponse

definition put_body :: "key \<Rightarrow> bytes \<Rightarrow> json" where
  "put_body k v = JObj [(''key'', jstring k), (''value'', jstring v)]"

definition RPC_Put :: "network \<Rightarrow> bool \<Rightarrow> string \<Rightarrow> key \<Rightarrow> bytes \<Rightarrow> rpc_error option" where
  "RPC_Put net cancelled address k v =
     (let url = ''http://'' @ address @ ''/api/v1/kv''
      in if \<not> net_url_ok net url then Some ErrRequest
         else case client_do net cancelled \<lparr>rq_method = POST, rq_url = url, rq_body = Some (put_body k v)\<rparr> of
                HttpFailed \<Rightarrow> Some ErrTransport
              | HttpResponse st _ \<Rightarrow> if 400 \<le> st then Some (ErrStatus st) else None)"

text \<open>The struct the answer of a get is decoded into: value and timestamp inside \<open>data\<close>.\<close>

definition data_field :: "string \<Rightarrow> json \<Rightarrow> string \<times> int \<Rightarrow> (string \<times> int) option" where
  "data_field n j x =
     (if names ''value'' n then map_option (\<lambda>v. (v, snd x)) (decode_string j (fst x))
      else if names ''timestamp'' n then map_option (\<lambda>t. (fst x, t)) (decode_int64 j (snd x))
      else Some x)"

definition decode_get :: "json \<Rightarrow> (string \<times> int) option" where
  "decode_get j =
     decode_struct (\<lambda>n v x. if names ''data'' n then decode_struct data_field v x else Some x) j ([], 0)"

definition RPC_Get :: "network \<Rightarrow> bool \<Rightarrow> string \<Rightarrow> key \<Rightarrow> rpc_error + RemoteValue" where
  "RPC_Get net cancelled address k =
     (let url = ''http://'' @ address @ ''/api/v1/kv/'' @ k
      in if \<not> net_url_ok net url then Inl ErrRequest
         else case client_do net cancelled \<lparr>rq_method = GET, rq_url = url, rq_body = None\<rparr> of
                HttpFailed \<Rightarrow> Inl ErrTransport
              | HttpResponse st b \<Rightarrow>
                  if st = 404 then Inr \<lparr>rv_NodeID = [], rv_Data = [], rv_Timestamp = 0, rv_Found = False\<rparr>
                  else if 400 \<le> st then Inl (ErrStatus st)
                  else case Option.bind b decode_get of
                         None \<Rightarrow> Inl ErrDecodeResponse
                       | Some (d, ts) \<Rightarrow> Inr \<lparr>rv_NodeID = [], rv_Data = d, rv_Timestamp = ts, rv_Found = True\<rparr>)"

definition RPC_Delete :: "network \<Rightarrow> bool \<Rightarrow> string \<Rightarrow> key \<Rightarrow> rpc_error option" where
  "RPC_Delete net cancelled address k =
     (let url = ''http://'' @ address @ ''/api/v1/kv/'' @ k
      in if \<not> net_url_ok net url then Some ErrRequest
         else case client_do net cancelled \<lparr>rq_method = DELETE, rq_url = url, rq_body = None\<rparr> of
                HttpFailed \<Rightarrow> Some ErrTransport
              | HttpResponse st _ \<Rightarrow> if 400 \<le> st then Some (ErrStatus st) else None)"

text \<open>Names of fields that occur in the program are told apart by \<open>names\<close>.\<close>

lemma names_refl [simp]: "names f f" by (simp add: names_def)

lemma names_fields [simp]:
  "\<not> names ''value'' ''timestamp''" "\<not> names ''value'' ''key''" "\<not> names ''value'' ''read_your_write''"
  "\<not> names ''value'' ''monotonic''" "\<not> names ''timestamp'' ''key''" "\<not> names ''timestamp'' ''read_your_write''"
  "\<not> names ''timestamp'' ''monotonic''" "\<not> names ''timestamp'' ''value''" "\<not> names ''key'' ''value''"
  "\<not> names ''root_hash'' ''data''" "\<not> names ''nodes'' ''data''" "\<not> names ''buckets'' ''data''"
  by code_simp+

end
