(* ===== verification/KV_Coordinator.thy ===== *)
theory KV_Coordinator
  imports KV_Hints KV_Ring KV_Rpc "HOL-Library.Signed_Division"
begin

text \<open>
  \<open>replication/coordinator.go\<close>: routing to replicas, quorums, and
  read repair. The goroutines that \<open>Put\<close>, \<open>Get\<close> and \<open>Delete\<close> start run to completion in any order:
  the schedule, a permutation of the replicas, is an argument, and the state returned is the one
  after all of them. An engine whose put panics (a snapshot threshold of zero) would end the
  process; here that replica counts as failed.
\<close>

section \<open>The coordinator\<close>

datatype ConsistencyLevel = One | Quorum | All

record ReplConfig =
  rc_N :: int
  rc_R :: int
  rc_W :: int
  rc_Timeout :: int
  rc_NodeID :: string
  rc_NodeHTTPAddress :: string

definition ReplConfig_Default :: ReplConfig where
  "ReplConfig_Default =
     \<lparr>rc_N = 3, rc_R = 2, rc_W = 2, rc_Timeout = 2 * second_ns, rc_NodeID = [], rc_NodeHTTPAddress = []\<rparr>"

record 't Coordinator =
  co_cfg :: ReplConfig
  co_ring :: Ring
  co_local :: "'t StorageEngine"
  co_hints :: HintedHandoff

definition NewCoordinator :: "ReplConfig \<Rightarrow> Ring \<Rightarrow> 't StorageEngine \<Rightarrow> 't Coordinator" where
  "NewCoordinator cfg ring local = \<lparr>co_cfg = cfg, co_ring = ring, co_local = local, co_hints = NewHintedHandoff\<rparr>"

datatype coord_error =
    ErrRing ring_error | ErrLocal kv_error | ErrRemote rpc_error
  | ErrInsufficientReplicas int int "coord_error option"

definition quorumSizeFor :: "ReplConfig \<Rightarrow> ConsistencyLevel \<Rightarrow> int \<Rightarrow> int" where
  "quorumSizeFor cfg level available =
     (let n0 = (if available < rc_N cfg then available else rc_N cfg);
          n = (if n0 = 0 then 1 else n0)
      in case level of One \<Rightarrow> 1 | All \<Rightarrow> n | Quorum \<Rightarrow> n sdiv 2 + 1)"

definition quorumSize :: "ReplConfig \<Rightarrow> Ring \<Rightarrow> ConsistencyLevel \<Rightarrow> int" where
  "quorumSize cfg ring level = quorumSizeFor cfg level (Ring_Size ring)"

text \<open>\<open>None\<close>: the ring's loop does not return.\<close>

definition getReplicas :: "digest \<Rightarrow> 't Coordinator \<Rightarrow> key \<Rightarrow> (ring_error + Node list) option" where
  "getReplicas sha c k =
     (let n = (if Ring_Size (co_ring c) < rc_N (co_cfg c) then Ring_Size (co_ring c) else rc_N (co_cfg c))
      in if n = 0 then Some (Inr [\<lparr>n_ID = rc_NodeID (co_cfg c), n_Address = rc_NodeHTTPAddress (co_cfg c)\<rparr>])
         else GetNSuccessors sha (co_ring c) k n)"

text \<open>What each goroutine meets: the operating system and the clock of the local engine, and the
  time of a hint with the system and clock of the write that persists it.\<close>

record replica_env =
  re_os :: os_env
  re_now :: int
  re_hint_now :: int
  re_hint_os :: os_env
  re_hint_put_now :: int

record 't world =
  wo_bt :: "(Entry, 't) btree_ops"
  wo_sha :: digest
  wo_net :: network
  wo_marshal :: "Hint \<Rightarrow> bytes"
  wo_env :: "Node \<Rightarrow> replica_env"

subsection \<open>Put\<close>

definition put_replica ::
  "'t world \<Rightarrow> bool \<Rightarrow> key \<Rightarrow> bytes \<Rightarrow> Node \<Rightarrow> 't Coordinator \<Rightarrow> coord_error option \<times> 't Coordinator" where
  "put_replica w cancelled k v replica c =
     (let env = wo_env w replica
      in if n_ID replica = rc_NodeID (co_cfg c)
         then case Engine_Put (wo_bt w) (re_os env) (re_now env) k v (co_local c) of
                (err, e) \<Rightarrow> (map_option ErrLocal err, c\<lparr>co_local := e\<rparr>)
         else case RPC_Put (wo_net w) cancelled (n_Address replica) k v of
                None \<Rightarrow> (None, c)
              | Some err \<Rightarrow>
                  (case Hint_Store (wo_bt w) (wo_marshal w) (re_hint_os env) (re_hint_now env) (re_hint_put_now env)
                          (n_ID replica) k v (co_hints c, co_local c) of
                     (h, e) \<Rightarrow> (Some (ErrRemote err), c\<lparr>co_hints := h, co_local := e\<rparr>)))"

text \<open>Receiving from the channel: stop at the first moment the quorum is there.\<close>

fun put_collect :: "int \<Rightarrow> int \<Rightarrow> coord_error option \<Rightarrow> coord_error option list \<Rightarrow> coord_error option" where
  "put_collect w acks lastErr [] = (if w \<le> acks then None else Some (ErrInsufficientReplicas acks w lastErr))"
| "put_collect w acks lastErr (r # rs) =
     (case r of
        None \<Rightarrow> if w \<le> acks + 1 then None else put_collect w (acks + 1) lastErr rs
      | Some err \<Rightarrow> put_collect w acks (Some err) rs)"

fun run_replicas :: "(Node \<Rightarrow> 'c \<Rightarrow> 'r \<times> 'c) \<Rightarrow> Node list \<Rightarrow> 'c \<Rightarrow> 'r list \<times> 'c" where
  "run_replicas f [] c = ([], c)"
| "run_replicas f (n # ns) c =
     (case f n c of (r, c1) \<Rightarrow> case run_replicas f ns c1 of (rs, c2) \<Rightarrow> (r # rs, c2))"

text \<open>\<open>sched replicas\<close> is the order in which the goroutines finish.\<close>

definition Coordinator_Put ::
  "'t world \<Rightarrow> (Node list \<Rightarrow> Node list) \<Rightarrow> bool \<Rightarrow> key \<Rightarrow> bytes \<Rightarrow> ConsistencyLevel \<Rightarrow> 't Coordinator \<Rightarrow>
   (coord_error option \<times> 't Coordinator) option" where
  "Coordinator_Put w sched cancelled k v level c =
     (case getReplicas (wo_sha w) c k of
        None \<Rightarrow> None
      | Some (Inl err) \<Rightarrow> Some (Some (ErrRing err), c)
      | Some (Inr replicas) \<Rightarrow>
          (let q = quorumSizeFor (co_cfg c) level (int (length replicas))
           in case run_replicas (put_replica w cancelled k v) (sched replicas) c of
                (rs, c1) \<Rightarrow> Some (put_collect q 0 None rs, c1)))"

subsection \<open>Get and read repair\<close>

definition get_replica ::
  "'t world \<Rightarrow> bool \<Rightarrow> key \<Rightarrow> Node \<Rightarrow> 't Coordinator \<Rightarrow> (coord_error + RemoteValue) \<times> 't Coordinator" where
  "get_replica w cancelled k replica c =
     (if n_ID replica = rc_NodeID (co_cfg c)
      then case Engine_Get (wo_bt w) k (co_local c) of
             (r, e) \<Rightarrow>
               ((case r of
                   Inl ErrKeyNotFound \<Rightarrow> Inr \<lparr>rv_NodeID = n_ID replica, rv_Data = [], rv_Timestamp = 0, rv_Found = False\<rparr>
                 | Inl err \<Rightarrow> Inl (ErrLocal err)
                 | Inr v \<Rightarrow> Inr \<lparr>rv_NodeID = n_ID replica, rv_Data = v_Data v, rv_Timestamp = v_Timestamp v, rv_Found = True\<rparr>),
                c\<lparr>co_local := e\<rparr>)
      else case RPC_Get (wo_net w) cancelled (n_Address replica) k of
             Inl err \<Rightarrow> (Inl (ErrRemote err), c)
           | Inr rv \<Rightarrow> (Inr (rv\<lparr>rv_NodeID := n_ID replica\<rparr>), c))"

definition filterFound :: "RemoteValue list \<Rightarrow> RemoteValue list" where
  "filterFound vals = foldl (\<lambda>out v. if rv_Found v then out @ [v] else out) [] vals"

definition latestValue :: "RemoteValue list \<Rightarrow> RemoteValue option" where
  "latestValue vals =
     foldl (\<lambda>best v. case best of
              None \<Rightarrow> Some v
            | Some b \<Rightarrow> if rv_Timestamp b < rv_Timestamp v then Some v else best) None vals"

fun get_collect :: "(coord_error + RemoteValue) list \<Rightarrow> RemoteValue list \<times> coord_error option \<Rightarrow> RemoteValue list \<times> coord_error option" where
  "get_collect [] acc = acc"
| "get_collect (Inl err # rs) (values, lastErr) = get_collect rs (values, Some err)"
| "get_collect (Inr v # rs) (values, lastErr) = get_collect rs (values @ [v], lastErr)"

text \<open>The answer of \<open>Get\<close> and the read repair it starts in the background: the latest value, the
  replicas and the values seen.\<close>

type_synonym repair = "RemoteValue \<times> Node list \<times> RemoteValue list"

definition get_result ::
  "int \<Rightarrow> Node list \<Rightarrow> RemoteValue list \<times> coord_error option \<Rightarrow> (coord_error + bytes \<times> int) \<times> repair option" where
  "get_result r replicas collected =
     (case collected of (values, lastErr) \<Rightarrow>
        let found = filterFound values
        in if length found = 0
           then ((case lastErr of Some err \<Rightarrow> Inl err | None \<Rightarrow> Inl (ErrLocal ErrKeyNotFound)), None)
           else if int (length values) < r
           then (Inl (ErrInsufficientReplicas (int (length values)) r None), None)
           else case latestValue found of
                  None \<Rightarrow> (Inl (ErrLocal ErrKeyNotFound), None)
                | Some latest \<Rightarrow> (Inr (rv_Data latest, rv_Timestamp latest), Some (latest, replicas, values)))"

definition Coordinator_Get ::
  "'t world \<Rightarrow> (Node list \<Rightarrow> Node list) \<Rightarrow> bool \<Rightarrow> key \<Rightarrow> ConsistencyLevel \<Rightarrow> 't Coordinator \<Rightarrow>
   ((coord_error + bytes \<times> int) \<times> repair option \<times> 't Coordinator) option" where
  "Coordinator_Get w sched cancelled k level c =
     (case getReplicas (wo_sha w) c k of
        None \<Rightarrow> None
      | Some (Inl err) \<Rightarrow> Some (Inl (ErrRing err), None, c)
      | Some (Inr replicas) \<Rightarrow>
          (let q = quorumSizeFor (co_cfg c) level (int (length replicas))
           in case run_replicas (get_replica w cancelled k) (sched replicas) c of
                (rs, c1) \<Rightarrow> (case get_result q replicas (get_collect rs ([], None)) of
                              (ans, rep) \<Rightarrow> Some (ans, rep, c1))))"

text \<open>\<open>readRepair\<close>: replicas that answered with nothing or with something older get the latest value;
  the engine stamps it with the time of the repair.\<close>

definition repair_replica ::
  "'t world \<Rightarrow> bool \<Rightarrow> key \<Rightarrow> RemoteValue \<Rightarrow> (string \<rightharpoonup> RemoteValue) \<Rightarrow> Node \<Rightarrow> 't Coordinator \<Rightarrow> 't Coordinator" where
  "repair_replica w cancelled k latest seenByNode replica c =
     (case seenByNode (n_ID replica) of
        None \<Rightarrow> c
      | Some rv \<Rightarrow>
          if rv_Found rv \<and> rv_Timestamp latest \<le> rv_Timestamp rv then c
          else if n_ID replica = rc_NodeID (co_cfg c)
          then c\<lparr>co_local := snd (Engine_Put (wo_bt w) (re_os (wo_env w replica)) (re_now (wo_env w replica)) k (rv_Data latest) (co_local c))\<rparr>
          else case RPC_Put (wo_net w) cancelled (n_Address replica) k (rv_Data latest) of _ \<Rightarrow> c)"

definition readRepair ::
  "'t world \<Rightarrow> bool \<Rightarrow> key \<Rightarrow> repair \<Rightarrow> 't Coordinator \<Rightarrow> 't Coordinator" where
  "readRepair w cancelled k rep c =
     (case rep of (latest, replicas, seen) \<Rightarrow>
        let seenByNode = foldl (\<lambda>m v. m(rv_NodeID v \<mapsto> v)) Map.empty seen
        in foldl (\<lambda>c replica. repair_replica w cancelled k latest seenByNode replica c) c replicas)"

subsection \<open>Delete\<close>

definition delete_replica ::
  "'t world \<Rightarrow> bool \<Rightarrow> key \<Rightarrow> Node \<Rightarrow> 't Coordinator \<Rightarrow> coord_error option \<times> 't Coordinator" where
  "delete_replica w cancelled k replica c =
     (if n_ID replica = rc_NodeID (co_cfg c)
      then case Engine_Delete (wo_bt w) (re_os (wo_env w replica)) (re_now (wo_env w replica)) k (co_local c) of
             (err, e) \<Rightarrow> (map_option ErrLocal err, c\<lparr>co_local := e\<rparr>)
      else (map_option ErrRemote (RPC_Delete (wo_net w) cancelled (n_Address replica) k), c))"

definition Coordinator_Delete ::
  "'t world \<Rightarrow> (Node list \<Rightarrow> Node list) \<Rightarrow> bool \<Rightarrow> key \<Rightarrow> ConsistencyLevel \<Rightarrow> 't Coordinator \<Rightarrow>
   (coord_error option \<times> 't Coordinator) option" where
  "Coordinator_Delete w sched cancelled k level c =
     (case getReplicas (wo_sha w) c k of
        None \<Rightarrow> None
      | Some (Inl err) \<Rightarrow> Some (Some (ErrRing err), c)
      | Some (Inr replicas) \<Rightarrow>
          (let q = quorumSizeFor (co_cfg c) level (int (length replicas))
           in case run_replicas (delete_replica w cancelled k) (sched replicas) c of
                (rs, c1) \<Rightarrow>
                  let acks = foldl (\<lambda>acks r. if r = None then acks + 1 else acks) 0 rs
                  in Some (if acks < q then Some (ErrInsufficientReplicas acks q None) else None, c1)))"

definition DistributedPut :: "'t world \<Rightarrow> (Node list \<Rightarrow> Node list) \<Rightarrow> key \<Rightarrow> bytes \<Rightarrow> 't Coordinator \<Rightarrow> (coord_error option \<times> 't Coordinator) option" where
  "DistributedPut w sched k v c = Coordinator_Put w sched False k v Quorum c"

definition DistributedGet :: "'t world \<Rightarrow> (Node list \<Rightarrow> Node list) \<Rightarrow> key \<Rightarrow> 't Coordinator \<Rightarrow>
   ((coord_error + bytes \<times> int) \<times> repair option \<times> 't Coordinator) option" where
  "DistributedGet w sched k c = Coordinator_Get w sched False k Quorum c"

definition DistributedDelete :: "'t world \<Rightarrow> (Node list \<Rightarrow> Node list) \<Rightarrow> key \<Rightarrow> 't Coordinator \<Rightarrow> (coord_error option \<times> 't Coordinator) option" where
  "DistributedDelete w sched k c = Coordinator_Delete w sched False k Quorum c"

end
