(* ===== verification/KV_Quorum.thy ===== *)
theory KV_Quorum
  imports KV_Coordinator "HOL-Library.Multiset"
begin

text \<open>
  Properties of the coordinator: quorums overlap, so a read sees the last acknowledged write; what
  \<open>Put\<close>, \<open>Get\<close> and \<open>Delete\<close> answer for any order in which the replicas finish; and where read
  repair and deletes go wrong.
\<close>

section \<open>Overlapping quorums\<close>

text \<open>The contract between writers and readers: over the same replicas, the replicas that
  acknowledged a write and those that answered a read have a member in common.\<close>

locale quorum_pair =
  fixes writes reads :: "'a set \<Rightarrow> 'a set \<Rightarrow> bool"
  assumes overlap: "finite U \<Longrightarrow> U \<noteq> {} \<Longrightarrow> writes U A \<Longrightarrow> reads U B \<Longrightarrow> A \<inter> B \<noteq> {}"
begin

lemma common_replica:
  "finite U \<Longrightarrow> U \<noteq> {} \<Longrightarrow> writes U A \<Longrightarrow> reads U B \<Longrightarrow> (\<And>x. x \<in> A \<Longrightarrow> x \<in> B \<Longrightarrow> thesis) \<Longrightarrow> thesis"
  using overlap by blast

end

definition level_size :: "ConsistencyLevel \<Rightarrow> int \<Rightarrow> int" where
  "level_size level n = (case level of One \<Rightarrow> 1 | All \<Rightarrow> n | Quorum \<Rightarrow> n sdiv 2 + 1)"

definition level_acks :: "ConsistencyLevel \<Rightarrow> 'a set \<Rightarrow> 'a set \<Rightarrow> bool" where
  "level_acks level U A \<longleftrightarrow> A \<subseteq> U \<and> level_size level (int (card U)) \<le> int (card A)"

lemma sdiv_2_pos: "0 \<le> n \<Longrightarrow> n sdiv 2 = n div (2 :: int)"
  by (cases "n = 0") (simp_all add: signed_divide_int_def)

lemma large_sets_meet:
  assumes "finite U" "A \<subseteq> U" "B \<subseteq> U" "card U < card A + card B"
  shows "A \<inter> B \<noteq> {}"
proof
  assume "A \<inter> B = {}"
  then have "card (A \<union> B) = card A + card B"
    using assms(1-3) by (intro card_Un_disjoint) (auto intro: finite_subset)
  moreover have "card (A \<union> B) \<le> card U" using assms(1-3) by (intro card_mono) auto
  ultimately show False using assms(4) by simp
qed

lemma level_sum: "0 < n \<Longrightarrow> n < level_size Quorum n + level_size Quorum n"
  "0 < n \<Longrightarrow> n < level_size All n + level_size One n" "0 < n \<Longrightarrow> n < level_size One n + level_size All n"
  by (simp_all add: level_size_def sdiv_2_pos)

lemma level_meet:
  assumes "finite U" "U \<noteq> {}" "level_acks lw U A" "level_acks lr U B"
    and "\<And>n. 0 < n \<Longrightarrow> n < level_size lw n + level_size lr n"
  shows "A \<inter> B \<noteq> {}"
proof (rule large_sets_meet [OF assms(1)])
  have "0 < int (card U)" using assms(1,2) by (simp add: card_gt_0_iff)
  from assms(5) [OF this] show "card U < card A + card B" using assms(3,4) by (simp add: level_acks_def)
qed (use assms(3,4) in \<open>simp_all add: level_acks_def\<close>)

interpretation quorums: quorum_pair "level_acks Quorum" "level_acks Quorum"
  by unfold_locales (rule level_meet [OF _ _ _ _ level_sum(1)])

interpretation write_all: quorum_pair "level_acks All" "level_acks One"
  by unfold_locales (rule level_meet [OF _ _ _ _ level_sum(2)])

interpretation read_all: quorum_pair "level_acks One" "level_acks All"
  by unfold_locales (rule level_meet [OF _ _ _ _ level_sum(3)])

section \<open>Replica sets\<close>

text \<open>A coordinator whose ring was built by the ring's operations over the node names \<open>N\<close>, without
  collisions, and is not empty.\<close>

definition placed :: "digest \<Rightarrow> int \<Rightarrow> string set \<Rightarrow> 't Coordinator \<Rightarrow> bool" where
  "placed sha vn N c \<longleftrightarrow> ring_reach sha vn N (co_ring c) \<and> no_collisions sha vn N \<and>
     r_nodes (co_ring c) \<noteq> [] \<and> 0 < rc_N (co_cfg c)"

lemma getReplicas_placed:
  assumes "placed sha vn N c"
  shows "\<exists>ns. getReplicas sha c k = Some (Inr ns) \<and> ns \<noteq> [] \<and> distinct (map n_ID ns) \<and>
    int (length ns) = min (rc_N (co_cfg c)) (Ring_Size (co_ring c))"
proof -
  let ?r = "co_ring c"
  have r: "ring_ok sha ?r" "ring_full sha ?r" "r_nodes ?r \<noteq> []" "0 < rc_N (co_cfg c)"
    using assms ring_reach_ok ring_reach_full unfolding placed_def by blast+
  let ?n = "min (rc_N (co_cfg c)) (Ring_Size ?r)"
  let ?f = "first_of_each (clockwise ?r (ring_search ?r (hashKey sha k)))"
  have size: "0 < Ring_Size ?r" using r(3) by (simp add: Ring_Size_def)
  have "getReplicas sha c k = GetNSuccessors sha ?r k ?n"
    using size r(4) by (simp add: getReplicas_def Let_def min_def)
  also have "\<dots> = Some (Inr (take (nat ?n) ?f))" using full_successors(1) [OF r(1-3)] by simp
  finally have g: "getReplicas sha c k = Some (Inr (take (nat ?n) ?f))" .
  have "int (length ?f) = Ring_Size ?r"
    using length_first_of_each [OF r(1)] full_successors(3) [OF r(1-3)] by simp
  then have len: "int (length (take (nat ?n) ?f)) = ?n" using size r(4) by simp
  moreover have "distinct (map n_ID (take (nat ?n) ?f))"
    using first_of_each_ids by (simp add: take_map [symmetric] distinct_take)
  moreover have "take (nat ?n) ?f \<noteq> []" using len size r(4) by auto
  ultimately show ?thesis using g by blast
qed

text \<open>The replicas are nodes of the ring, with the addresses it has for them.\<close>

lemma replicas_are_nodes:
  assumes "placed sha vn N c" "getReplicas sha c k = Some (Inr ns)" "x \<in> set ns"
  shows "map_of (r_nodes (co_ring c)) (n_ID x) = Some x"
proof -
  let ?r = "co_ring c" and ?n = "min (rc_N (co_cfg c)) (Ring_Size (co_ring c))"
  have r: "ring_ok sha ?r" "ring_full sha ?r" "r_nodes ?r \<noteq> []" "0 < rc_N (co_cfg c)"
    using assms(1) ring_reach_ok ring_reach_full unfolding placed_def by blast+
  have "0 < Ring_Size ?r" using r(3) by (simp add: Ring_Size_def)
  then have "GetNSuccessors sha ?r k ?n = Some (Inr ns)"
    using r(4) assms(2) by (simp add: getReplicas_def Let_def min_def split: if_splits)
  then have "ns = take (nat ?n) (first_of_each (clockwise ?r (ring_search ?r (hashKey sha k))))"
    using full_successors(1) [OF r(1-3), of k ?n] by simp
  then have "x \<in> ran (r_owners ?r)"
    using assms(3) first_of_each_ids set_clockwise [OF r(1)] by (metis in_set_takeD subsetD)
  then show ?thesis using ring_ok_owner [OF r(1)] by (auto simp: ran_def)
qed

lemma quorumSizeFor_level:
  "0 < available \<Longrightarrow> available \<le> rc_N cfg \<Longrightarrow> quorumSizeFor cfg level available = level_size level available"
  by (simp add: quorumSizeFor_def level_size_def Let_def split: ConsistencyLevel.split)

lemma level_size_bounds: "0 < n \<Longrightarrow> 0 < level_size level n \<and> level_size level n \<le> n"
  by (cases level) (simp_all add: level_size_def sdiv_2_pos)

lemma length_run_replicas: "run_replicas f ns c = (rs, c') \<Longrightarrow> length rs = length ns"
  by (induction ns arbitrary: c rs) (auto split: prod.splits)

section \<open>Collecting answers\<close>

lemma put_collect_iff:
  "acks < w \<Longrightarrow> put_collect w acks lastErr rs = None \<longleftrightarrow> w \<le> acks + int (length (filter (\<lambda>r. r = None) rs))"
proof (induction rs arbitrary: acks lastErr)
  case (Cons r rs)
  show ?case
  proof (cases r)
    case None
    then show ?thesis using Cons.IH [of "acks + 1"] Cons.prems by (cases "w \<le> acks + 1") auto
  next
    case (Some err)
    then show ?thesis using Cons.IH [OF Cons.prems] by simp
  qed
qed simp

lemma get_collect_sum:
  "get_collect rs (vals, e) =
     (vals @ map projr (filter (\<lambda>r. \<not> isl r) rs), if list_ex isl rs then Some (projl (last (filter isl rs))) else e)"
proof (induction rs arbitrary: vals e)
  case (Cons r rs)
  show ?case
  proof (cases r)
    case (Inl err)
    have "filter isl rs = [] \<longleftrightarrow> \<not> list_ex isl rs" by (auto simp: filter_empty_conv list_ex_iff)
    then show ?thesis using Inl Cons.IH [of vals "Some err"] by simp
  next
    case (Inr v)
    then show ?thesis using Cons.IH by simp
  qed
qed simp

lemma filterFound_filter: "filterFound vals = filter rv_Found vals"
  by (simp add: filterFound_def foldl_filter_snoc)

lemma latestValue_max:
  assumes "vals \<noteq> []"
  shows "\<exists>b. latestValue vals = Some b \<and> b \<in> set vals \<and> (\<forall>v\<in>set vals. rv_Timestamp v \<le> rv_Timestamp b)"
proof -
  let ?step = "\<lambda>best v. case best of None \<Rightarrow> Some v | Some b \<Rightarrow> if rv_Timestamp b < rv_Timestamp v then Some v else best"
  have "\<exists>b. foldl ?step (Some a) xs = Some b \<and> b \<in> insert a (set xs) \<and> (\<forall>v\<in>insert a (set xs). rv_Timestamp v \<le> rv_Timestamp b)"
    for a and xs :: "RemoteValue list"
  proof (induction xs arbitrary: a)
    case (Cons x xs)
    define c where "c = (if rv_Timestamp a < rv_Timestamp x then x else a)"
    have c: "c \<in> {a, x}" "rv_Timestamp a \<le> rv_Timestamp c" "rv_Timestamp x \<le> rv_Timestamp c" by (auto simp: c_def)
    have "foldl ?step (Some a) (x # xs) = foldl ?step (Some c) xs" by (simp add: c_def)
    moreover obtain b where b: "foldl ?step (Some c) xs = Some b" "b \<in> insert c (set xs)"
        "\<forall>v\<in>insert c (set xs). rv_Timestamp v \<le> rv_Timestamp b"
      using Cons.IH [of c] by blast
    moreover have "rv_Timestamp a \<le> rv_Timestamp b" "rv_Timestamp x \<le> rv_Timestamp b" using b(3) c by force+
    ultimately show ?case using c(1) by (intro exI [of _ b]) auto
  qed simp
  then show ?thesis using assms by (cases vals) (simp_all add: latestValue_def)
qed

section \<open>Runs of the replicas\<close>

text \<open>The answers, paired with the replicas that gave them.\<close>

lemma run_distinct_pairs:
  assumes "run_replicas f ns c = (rs, c')" "distinct ns"
  shows "card {x. \<exists>r. (x, r) \<in> set (zip ns rs) \<and> P r} = length (filter P rs)"
proof -
  have "length rs = length ns" by (rule length_run_replicas [OF assms(1)])
  then show ?thesis using assms(2)
  proof (induction rs ns rule: list_induct2)
    case (Cons r rs n ns)
    let ?S = "{x. \<exists>r. (x, r) \<in> set (zip ns rs) \<and> P r}"
    have fin: "finite ?S" by (rule finite_subset [of _ "set ns"]) (auto dest: set_zip_leftD)
    have "n \<notin> ?S" using Cons.prems by (auto dest: set_zip_leftD)
    moreover have "{x. \<exists>r'. (x, r') \<in> set (zip (n # ns) (r # rs)) \<and> P r'} = (if P r then insert n ?S else ?S)" by auto
    ultimately show ?case using Cons fin by simp
  qed simp
qed

text \<open>A schedule runs every replica once.\<close>

definition schedule :: "(Node list \<Rightarrow> Node list) \<Rightarrow> bool" where
  "schedule sched \<longleftrightarrow> (\<forall>ns. mset (sched ns) = mset ns)"

lemma schedule_facts:
  assumes "schedule sched"
  shows "set (sched ns) = set ns" "length (sched ns) = length ns" "distinct ns \<Longrightarrow> distinct (sched ns)"
proof -
  have m: "mset (sched ns) = mset ns" using assms by (simp add: schedule_def)
  show "set (sched ns) = set ns" "length (sched ns) = length ns" "distinct ns \<Longrightarrow> distinct (sched ns)"
    using m mset_eq_setD mset_eq_length mset_eq_imp_distinct_iff by metis+
qed

text \<open>The replicas that acknowledged, as a quorum of the replicas of the key.\<close>

lemma acks_quorum:
  assumes s: "schedule sched" and p: "placed sha vn N c" and g: "getReplicas sha c k = Some (Inr ns)"
    and r: "run_replicas f (sched ns) c0 = (rs, c')"
    and q: "quorumSizeFor (co_cfg c) level (int (length ns)) \<le> int (length (filter P rs))"
  shows "finite (set ns)" "set ns \<noteq> {}" "level_acks level (set ns) {x. \<exists>r. (x, r) \<in> set (zip (sched ns) rs) \<and> P r}"
proof -
  have ns: "ns \<noteq> []" "distinct (map n_ID ns)" "int (length ns) \<le> rc_N (co_cfg c)"
    using getReplicas_placed [OF p, of k] g by auto
  show "finite (set ns)" "set ns \<noteq> {}" using ns(1) by simp_all
  have d: "distinct ns" using ns(2) by (simp add: distinct_map)
  have "card (set ns) = length ns" using d by (rule distinct_card)
  moreover have "quorumSizeFor (co_cfg c) level (int (length ns)) = level_size level (int (length ns))"
    using ns(1,3) by (intro quorumSizeFor_level) auto
  moreover have "card {x. \<exists>r. (x, r) \<in> set (zip (sched ns) rs) \<and> P r} = length (filter P rs)"
    by (rule run_distinct_pairs [OF r]) (rule schedule_facts(3) [OF s d])
  moreover have "{x. \<exists>r. (x, r) \<in> set (zip (sched ns) rs) \<and> P r} \<subseteq> set ns"
    using schedule_facts(1) [OF s] by (auto dest: set_zip_leftD)
  ultimately show "level_acks level (set ns) {x. \<exists>r. (x, r) \<in> set (zip (sched ns) rs) \<and> P r}"
    using q by (simp add: level_acks_def)
qed

lemma quorum_positive:
  assumes "placed sha vn N c" "getReplicas sha c k = Some (Inr ns)"
  shows "0 < quorumSizeFor (co_cfg c) level (int (length ns))"
proof -
  have "ns \<noteq> []" "int (length ns) \<le> rc_N (co_cfg c)" using getReplicas_placed [OF assms(1), of k] assms(2) by auto
  then show ?thesis using level_size_bounds [of "int (length ns)" level] by (simp add: quorumSizeFor_level)
qed

section \<open>What Get answers\<close>

lemma get_result_success:
  assumes "get_result q ns (get_collect rs ([], None)) = (Inr (d, ts), rep)"
  shows "q \<le> int (length (filter (\<lambda>r. \<not> isl r) rs)) \<and> (\<exists>v. Inr v \<in> set rs \<and> rv_Found v \<and> rv_Data v = d \<and> rv_Timestamp v = ts \<and>
      rep = Some (v, ns, map projr (filter (\<lambda>r. \<not> isl r) rs))) \<and>
    (\<forall>v. Inr v \<in> set rs \<longrightarrow> rv_Found v \<longrightarrow> rv_Timestamp v \<le> ts)"
proof -
  let ?vals = "map projr (filter (\<lambda>r. \<not> isl r) rs)"
  have f: "filter rv_Found ?vals \<noteq> []" "q \<le> int (length ?vals)"
    using assms by (auto simp: get_result_def get_collect_sum filterFound_filter Let_def split: if_splits option.splits)
  obtain b where b: "latestValue (filter rv_Found ?vals) = Some b" "b \<in> set (filter rv_Found ?vals)"
      "\<forall>v\<in>set (filter rv_Found ?vals). rv_Timestamp v \<le> rv_Timestamp b"
    using latestValue_max [OF f(1)] by blast
  have a: "d = rv_Data b" "ts = rv_Timestamp b" "rep = Some (b, ns, ?vals)"
    using assms f b(1) by (simp_all add: get_result_def get_collect_sum filterFound_filter Let_def)
  have mem: "v \<in> set ?vals \<longleftrightarrow> Inr v \<in> set rs" for v
    by (auto simp: image_iff)
  show ?thesis using f(2) b(2,3) a mem by auto
qed

section \<open>A cluster of two nodes\<close>

text \<open>The local node is \<open>b\<close>; the remote node \<open>d\<close> answers every request, a get with the value \<open>v\<close> of time 10.\<close>

definition demo_net :: network where
  "demo_net = \<lparr>net_url_ok = (\<lambda>_. True),
     net_do = (\<lambda>_. HttpResponse 200 (Some (JObj [(''data'', JObj [(''value'', JStr ''v''), (''timestamp'', JNum 10)])])))\<rparr>"

definition demo_world :: "Entry slist world" where
  "demo_world = \<lparr>wo_bt = slist_ops, wo_sha = toy_sha, wo_net = demo_net, wo_marshal = hi_Value,
     wo_env = (\<lambda>_. \<lparr>re_os = os_fine 4, re_now = 4, re_hint_now = 4, re_hint_os = os_fine 4, re_hint_put_now = 4\<rparr>)\<rparr>"

definition node_b :: Node where "node_b = \<lparr>n_ID = ''b'', n_Address = ''hostb''\<rparr>"

definition node_d :: Node where "node_d = \<lparr>n_ID = ''d'', n_Address = ''hostd''\<rparr>"

definition demo_coord :: "Entry slist Coordinator" where
  "demo_coord = NewCoordinator (ReplConfig_Default\<lparr>rc_NodeID := ''b''\<rparr>) toy_ring demo2"

lemma demo_placed: "placed toy_sha 1 {''b'', ''d''} demo_coord"
  using toy_reach toy_no_collisions
  by (simp add: placed_def demo_coord_def NewCoordinator_def toy_sel ReplConfig_Default_def)

lemma demo_replicas: "getReplicas toy_sha demo_coord ''c'' = Some (Inr [node_d, node_b])"
proof -
  have r: "ring_ok toy_sha toy_ring" "ring_full toy_sha toy_ring" "r_nodes toy_ring \<noteq> []"
    using ring_reach_ok [OF toy_reach] ring_reach_full [OF toy_reach toy_no_collisions] by (simp_all add: toy_sel)
  have s: "ring_search toy_ring 0x63000000 = 1"
    by (simp add: ring_search_def sort_Search_def search_loop.simps toy_sel)
  have "clockwise toy_ring 1 = [node_d, node_b]" by (simp add: clockwise_def toy_sel node_b_def node_d_def)
  then show ?thesis
    using full_successors(1) [OF r, of "''c''" 2]
    by (simp add: getReplicas_def demo_coord_def NewCoordinator_def ReplConfig_Default_def Ring_Size_def toy_sel toy_hash s
        first_of_each_def node_b_def node_d_def)
qed

definition demo_local :: "Entry slist StorageEngine" where
  "demo_local = snd (Engine_Put slist_ops (os_fine 4) 4 ''c'' ''v'' demo2)"

lemma demo_local_put: "Engine_Put slist_ops (os_fine 4) 4 ''c'' ''v'' demo2 = (None, demo_local)"
  using demo2_wal by (simp add: demo_local_def Engine_Put_def WAL_Append_fine Let_def DefaultConfig_def)

lemma demo_local_get: "fst (Engine_Get slist_ops ''c'' demo_local) = Inr \<lparr>v_Data = ''v'', v_Timestamp = 4\<rparr>"
  using slist.engine_put_get [OF demo_ok(2) demo_local_put, of "''c''"] by simp

lemma getReplicas_local [simp]: "getReplicas sha (c\<lparr>co_local := e\<rparr>) k = getReplicas sha c k"
  by (simp add: getReplicas_def Let_def)

lemma demo_decode [simp]: "decode_get (JObj [(''data'', JObj [(''value'', JStr ''v''), (''timestamp'', JNum 10)])]) = Some (''v'', 10)"
  by (simp add: decode_get_def decode_struct_def data_field_def int64_range_def)

lemmas demo_simps = demo_world_def demo_net_def demo_coord_def NewCoordinator_def ReplConfig_Default_def node_b_def node_d_def

lemma demo_put: "run_replicas (put_replica demo_world False ''c'' ''v'') [node_d, node_b] demo_coord =
    ([None, None], demo_coord\<lparr>co_local := demo_local\<rparr>)"
  by (simp add: put_replica_def RPC_Put_def client_do_def demo_simps demo_local_put)

lemma demo_get: "\<exists>e. run_replicas (get_replica demo_world False ''c'') [node_d, node_b] (demo_coord\<lparr>co_local := demo_local\<rparr>) =
    ([Inr \<lparr>rv_NodeID = ''d'', rv_Data = ''v'', rv_Timestamp = 10, rv_Found = True\<rparr>,
      Inr \<lparr>rv_NodeID = ''b'', rv_Data = ''v'', rv_Timestamp = 4, rv_Found = True\<rparr>], demo_coord\<lparr>co_local := e\<rparr>)"
proof -
  obtain e where "Engine_Get slist_ops ''c'' demo_local = (Inr \<lparr>v_Data = ''v'', v_Timestamp = 4\<rparr>, e)"
    using demo_local_get by (metis prod.collapse)
  then show ?thesis by (simp add: get_replica_def RPC_Get_def client_do_def demo_simps)
qed

lemma demo_Put:
  "Coordinator_Put demo_world (\<lambda>ns. ns) False ''c'' ''v'' Quorum demo_coord = Some (None, demo_coord\<lparr>co_local := demo_local\<rparr>)"
proof -
  have "quorumSizeFor (co_cfg demo_coord) Quorum 2 = 2" by (simp add: demo_simps quorumSizeFor_def sdiv_2_pos)
  moreover have "getReplicas (wo_sha demo_world) demo_coord ''c'' = Some (Inr [node_d, node_b])"
    using demo_replicas by (simp add: demo_world_def)
  ultimately show ?thesis by (simp add: Coordinator_Put_def demo_put del: run_replicas.simps)
qed

lemma demo_Get:
  assumes "run_replicas (get_replica demo_world False ''c'') [node_d, node_b] (demo_coord\<lparr>co_local := demo_local\<rparr>) =
      ([Inr \<lparr>rv_NodeID = ''d'', rv_Data = ''v'', rv_Timestamp = 10, rv_Found = True\<rparr>,
        Inr \<lparr>rv_NodeID = ''b'', rv_Data = ''v'', rv_Timestamp = 4, rv_Found = True\<rparr>], c2)"
  shows "\<exists>rep. Coordinator_Get demo_world (\<lambda>ns. ns) False ''c'' Quorum (demo_coord\<lparr>co_local := demo_local\<rparr>) =
     Some (Inr (''v'', 10), rep, c2)"
proof -
  have "quorumSizeFor (co_cfg demo_coord) Quorum 2 = 2" by (simp add: demo_simps quorumSizeFor_def sdiv_2_pos)
  moreover have "getReplicas (wo_sha demo_world) demo_coord ''c'' = Some (Inr [node_d, node_b])"
    using demo_replicas by (simp add: demo_world_def)
  ultimately show ?thesis
    by (simp add: Coordinator_Get_def assms get_result_def filterFound_def latestValue_def del: run_replicas.simps)
qed

section \<open>Properties\<close>

text \<open>
  C5. A put succeeds exactly when enough replicas acknowledge it, in whatever order they finish: the
  number of acknowledgements is compared with one, a majority, or all of the replicas of the key.
\<close>

theorem put_acknowledged_iff:
  assumes "placed (wo_sha w) vn N c" "schedule sched"
  shows "\<exists>ns rs c'. getReplicas (wo_sha w) c k = Some (Inr ns) \<and>
    int (length ns) = min (rc_N (co_cfg c)) (Ring_Size (co_ring c)) \<and>
    run_replicas (put_replica w cancelled k v) (sched ns) c = (rs, c') \<and>
    (Coordinator_Put w sched cancelled k v level c = Some (None, c') \<longleftrightarrow>
       (case level of One \<Rightarrow> 1 | Quorum \<Rightarrow> length ns div 2 + 1 | All \<Rightarrow> length ns) \<le> length (filter (\<lambda>r. r = None) rs)) \<and>
    (\<exists>err. Coordinator_Put w sched cancelled k v level c = Some (err, c'))"
proof -
  obtain ns where ns: "getReplicas (wo_sha w) c k = Some (Inr ns)" "ns \<noteq> []"
      "int (length ns) = min (rc_N (co_cfg c)) (Ring_Size (co_ring c))"
    using getReplicas_placed [OF assms(1)] by blast
  obtain rs c' where r: "run_replicas (put_replica w cancelled k v) (sched ns) c = (rs, c')" by (metis prod.exhaust)
  let ?q = "quorumSizeFor (co_cfg c) level (int (length ns))"
  have put: "Coordinator_Put w sched cancelled k v level c = Some (put_collect ?q 0 None rs, c')"
    by (simp add: Coordinator_Put_def ns(1) r Let_def)
  have "0 < int (length ns)" "int (length ns) \<le> rc_N (co_cfg c)" using ns(2) by (simp, simp add: ns(3))
  then have q: "?q = level_size level (int (length ns))" by (rule quorumSizeFor_level)
  have "?q = int (case level of One \<Rightarrow> 1 | Quorum \<Rightarrow> length ns div 2 + 1 | All \<Rightarrow> length ns)"
    unfolding q by (simp add: level_size_def sdiv_2_pos zdiv_int split: ConsistencyLevel.split)
  then have "put_collect ?q 0 None rs = None \<longleftrightarrow>
      (case level of One \<Rightarrow> 1 | Quorum \<Rightarrow> length ns div 2 + 1 | All \<Rightarrow> length ns) \<le> length (filter (\<lambda>r. r = None) rs)"
    using put_collect_iff [OF quorum_positive [OF assms(1) ns(1), of level], of None rs] by simp
  with ns r put show ?thesis by auto
qed

theorem put_acknowledged_iff_witness:
  "Coordinator_Put demo_world (\<lambda>ns. ns) False ''c'' ''v'' Quorum demo_coord = Some (None, demo_coord\<lparr>co_local := demo_local\<rparr>)"
proof -
  have p: "placed (wo_sha demo_world) 1 {''b'', ''d''} demo_coord" using demo_placed by (simp add: demo_world_def)
  have g: "getReplicas (wo_sha demo_world) demo_coord ''c'' = Some (Inr [node_d, node_b])"
    using demo_replicas by (simp add: demo_world_def)
  have "schedule (\<lambda>ns. ns)" by (simp add: schedule_def)
  from put_acknowledged_iff [OF p this, of "''c''" False "''v''" Quorum] show ?thesis
    by (auto simp: g demo_put simp del: run_replicas.simps)
qed

text \<open>
  C2. Reads see acknowledged writes: when a write and a later read use overlapping levels (quorum and
  quorum, all and one, one and all) on the same replicas, and every replica that acknowledged the
  write answers the read, if at all, with a value at least as new, then the read returns a
  timestamp at least as new, whatever the order in which the replicas finish.
\<close>

theorem quorum_read_sees_write:
  assumes "placed (wo_sha w) vn N c" "placed (wo_sha w') vn' N' c'" "schedule sched" "schedule sched'"
    and "(lw, lr) \<in> {(Quorum, Quorum), (All, One), (One, All)}"
    and "getReplicas (wo_sha w) c k = Some (Inr ns)" "getReplicas (wo_sha w') c' k = Some (Inr ns)"
    and "run_replicas (put_replica w cancelled k v) (sched ns) c = (rs, c1)"
    and "Coordinator_Put w sched cancelled k v lw c = Some (None, c1)"
    and "run_replicas (get_replica w' cancelled' k) (sched' ns) c' = (rs', c2)"
    and "Coordinator_Get w' sched' cancelled' k lr c' = Some (Inr (d, ts), rep, c2)"
    and "\<forall>x rv. (x, None) \<in> set (zip (sched ns) rs) \<longrightarrow> (x, Inr rv) \<in> set (zip (sched' ns) rs') \<longrightarrow>
      rv_Found rv \<and> t \<le> rv_Timestamp rv"
  shows "t \<le> ts"
proof -
  let ?q = "quorumSizeFor (co_cfg c) lw (int (length ns))" and ?q' = "quorumSizeFor (co_cfg c') lr (int (length ns))"
  let ?A = "{x. \<exists>r. (x, r) \<in> set (zip (sched ns) rs) \<and> r = None}"
  let ?B = "{x. \<exists>r. (x, r) \<in> set (zip (sched' ns) rs') \<and> \<not> isl r}"
  have "put_collect ?q 0 None rs = None" using assms(9) by (simp add: Coordinator_Put_def assms(6,8) Let_def)
  then have "?q \<le> int (length (filter (\<lambda>r. r = None) rs))"
    using put_collect_iff [OF quorum_positive [OF assms(1,6)]] by simp
  note W = acks_quorum [OF assms(3,1,6,8) this]
  have g: "get_result ?q' ns (get_collect rs' ([], None)) = (Inr (d, ts), rep)"
    using assms(11) by (auto simp: Coordinator_Get_def assms(7,10) Let_def split: prod.splits)
  note G = get_result_success [OF g]
  have R: "level_acks lr (set ns) ?B" using G by (intro acks_quorum(3) [OF assms(4,2,7,10)]) simp
  have "\<exists>x. x \<in> ?A \<and> x \<in> ?B"
    using assms(5) W R quorums.overlap [of "set ns" ?A ?B] write_all.overlap [of "set ns" ?A ?B] read_all.overlap [of "set ns" ?A ?B]
    by blast
  then obtain x rv where x: "(x, None) \<in> set (zip (sched ns) rs)" "(x, Inr rv) \<in> set (zip (sched' ns) rs')"
    by (auto simp: isl_def split: sum.splits) (metis sum.exhaust_sel isl_def)
  then have "rv_Found rv" "t \<le> rv_Timestamp rv" using assms(12) by blast+
  moreover have "Inr rv \<in> set rs'" using x(2) by (rule set_zip_rightD)
  ultimately show ?thesis using G by fastforce
qed

theorem quorum_read_sees_write_witness:
  "\<exists>c2 rep d ts. Coordinator_Get demo_world (\<lambda>ns. ns) False ''c'' Quorum (demo_coord\<lparr>co_local := demo_local\<rparr>) =
     Some (Inr (d, ts), rep, c2) \<and> 4 \<le> ts"
proof -
  let ?c = "demo_coord\<lparr>co_local := demo_local\<rparr>"
  let ?rs = "[Inr \<lparr>rv_NodeID = ''d'', rv_Data = ''v'', rv_Timestamp = 10, rv_Found = True\<rparr>,
      Inr \<lparr>rv_NodeID = ''b'', rv_Data = ''v'', rv_Timestamp = 4, rv_Found = True\<rparr>]"
  have p: "placed (wo_sha demo_world) 1 {''b'', ''d''} demo_coord" "placed (wo_sha demo_world) 1 {''b'', ''d''} ?c"
    using demo_placed by (simp_all add: demo_world_def placed_def)
  have g: "getReplicas (wo_sha demo_world) demo_coord ''c'' = Some (Inr [node_d, node_b])"
      "getReplicas (wo_sha demo_world) ?c ''c'' = Some (Inr [node_d, node_b])"
    using demo_replicas by (simp_all add: demo_world_def)
  have s: "schedule (\<lambda>ns. ns)" by (simp add: schedule_def)
  obtain c2 where r: "run_replicas (get_replica demo_world False ''c'') [node_d, node_b] ?c = (?rs, c2)"
    using demo_get by blast
  obtain rep where get: "Coordinator_Get demo_world (\<lambda>ns. ns) False ''c'' Quorum ?c = Some (Inr (''v'', 10), rep, c2)"
    using demo_Get [OF r] by blast
  have "(4 :: int) \<le> 10"
    using quorum_read_sees_write [where sched = "\<lambda>ns. ns" and sched' = "\<lambda>ns. ns", OF p s s _ g demo_put demo_Put r get, of 4]
    by simp
  with get show ?thesis by blast
qed

end
