(* ===== verification/KV_Repair.thy ===== *)
theory KV_Repair
  imports KV_Quorum
begin

text \<open>
  Further properties of the coordinator: what a read answers, which hints a write leaves behind, and
  how read repair brings a deleted key back.
\<close>

section \<open>Answers of the replicas\<close>

text \<open>What holds of every answer, by an invariant of the state.\<close>

lemma run_replicas_all:
  assumes "run_replicas f ns c = (rs, c')" "I c"
    and step: "\<And>n c. I c \<Longrightarrow> P n (fst (f n c)) \<and> I (snd (f n c))"
  shows "list_all2 P ns rs \<and> I c'"
  using assms(1,2)
proof (induction ns arbitrary: c rs)
  case (Cons n ns)
  obtain r c1 where f: "f n c = (r, c1)" by (metis prod.exhaust)
  obtain rs1 where r: "run_replicas f ns c1 = (rs1, c')" "rs = r # rs1" using Cons.prems by (auto simp: f split: prod.splits)
  show ?case using Cons.IH [OF r(1)] step [OF Cons.prems(2), of n] by (simp add: r(2) f)
qed simp

lemma get_replica_answer:
  "fst (get_replica w cancelled k x c) \<noteq> Inl (ErrLocal ErrKeyNotFound)"
  "fst (get_replica w cancelled k x c) = Inr v \<Longrightarrow> rv_NodeID v = n_ID x"
  by (auto simp: get_replica_def split: prod.splits sum.splits kv_error.splits if_splits)

lemma get_replica_cfg:
  "co_cfg (snd (get_replica w cancelled k x c)) = co_cfg c" "co_hints (snd (get_replica w cancelled k x c)) = co_hints c"
  by (auto simp: get_replica_def split: prod.splits sum.splits)

lemma get_result_error:
  assumes "get_result q ns (get_collect rs ([], None)) = (Inl err, rep)"
  shows "rep = None \<and> ((\<forall>v. Inr v \<in> set rs \<longrightarrow> \<not> rv_Found v) \<or> int (length (filter (\<lambda>r. \<not> isl r) rs)) < q)"
proof -
  let ?vals = "map projr (filter (\<lambda>r. \<not> isl r) rs)"
  have mem: "v \<in> set ?vals \<longleftrightarrow> Inr v \<in> set rs" for v by (auto simp: image_iff)
  show ?thesis
  proof (cases "filter rv_Found ?vals = []")
    case True
    then have "\<forall>v\<in>set ?vals. \<not> rv_Found v" by (simp only: filter_empty_conv)
    with True assms show ?thesis
      using mem by (auto simp: get_result_def get_collect_sum filterFound_filter Let_def split: option.splits)
  next
    case False
    with latestValue_max [OF False] assms show ?thesis
      by (auto simp: get_result_def get_collect_sum filterFound_filter Let_def split: if_splits option.splits)
  qed
qed

lemma get_result_missing:
  assumes "Inl (ErrLocal ErrKeyNotFound) \<notin> set rs"
  shows "fst (get_result q ns (get_collect rs ([], None))) = Inl (ErrLocal ErrKeyNotFound) \<longleftrightarrow>
    (\<forall>r\<in>set rs. \<exists>v. r = Inr v \<and> \<not> rv_Found v)"
proof -
  let ?vals = "map projr (filter (\<lambda>r. \<not> isl r) rs)"
  have mem: "v \<in> set ?vals \<longleftrightarrow> Inr v \<in> set rs" for v by (auto simp: image_iff)
  show ?thesis
  proof (cases "filter rv_Found ?vals = []")
    case True
    then have none: "\<forall>v\<in>set ?vals. \<not> rv_Found v" by (simp only: filter_empty_conv)
    show ?thesis
    proof (cases "list_ex isl rs")
      case ex: True
      let ?e = "last (filter isl rs)"
      have "?e \<in> set (filter isl rs)" using ex by (intro last_in_set) (auto simp: filter_empty_conv list_ex_iff)
      then have e: "?e \<in> set rs" "isl ?e" by simp_all
      then have "projl ?e \<noteq> ErrLocal ErrKeyNotFound" using assms by (metis sum.collapse(1))
      moreover have "\<not> (\<forall>r\<in>set rs. \<exists>v. r = Inr v \<and> \<not> rv_Found v)" using e by (metis isl_def sum.disc(2) sum.disc(1))
      ultimately show ?thesis using True ex by (simp add: get_result_def get_collect_sum filterFound_filter Let_def)
    next
      case False
      then have "\<forall>r\<in>set rs. \<exists>v. r = Inr v" by (metis list_ex_iff isl_def sum.exhaust)
      then have "\<forall>r\<in>set rs. \<exists>v. r = Inr v \<and> \<not> rv_Found v" using none mem by metis
      then show ?thesis using True False by (simp add: get_result_def get_collect_sum filterFound_filter Let_def)
    qed
  next
    case False
    then obtain v where "v \<in> set ?vals" "rv_Found v" by (metis filter_empty_conv)
    then have "\<not> (\<forall>r\<in>set rs. \<exists>v. r = Inr v \<and> \<not> rv_Found v)" using mem by (metis sum.inject(2))
    moreover obtain b where "latestValue (filter rv_Found ?vals) = Some b" using latestValue_max [OF False] by blast
    ultimately show ?thesis using False by (simp add: get_result_def get_collect_sum filterFound_filter Let_def)
  qed
qed

section \<open>Hints\<close>

lemma put_replica_cfg: "co_cfg (snd (put_replica w cancelled k v x c)) = co_cfg c"
  by (auto simp: put_replica_def Let_def split: prod.splits option.splits)

lemma put_replica_hints:
  "pending (co_hints (snd (put_replica w cancelled k v x c))) n = pending (co_hints c) n @
     (if n = n_ID x \<and> n_ID x \<noteq> rc_NodeID (co_cfg c) \<and> RPC_Put (wo_net w) cancelled (n_Address x) k v \<noteq> None
      then [\<lparr>hi_IntendedNode = n, hi_Key = k, hi_Value = v, hi_StoredAt = re_hint_now (wo_env w x)\<rparr>] else [])"
proof (cases "n_ID x = rc_NodeID (co_cfg c) \<or> RPC_Put (wo_net w) cancelled (n_Address x) k v = None")
  case True
  then show ?thesis by (auto simp: put_replica_def Let_def split: prod.splits)
next
  case False
  let ?env = "wo_env w x"
  obtain h e where h: "Hint_Store (wo_bt w) (wo_marshal w) (re_hint_os ?env) (re_hint_now ?env) (re_hint_put_now ?env)
      (n_ID x) k v (co_hints c, co_local c) = (h, e)" by (metis prod.exhaust)
  have "co_hints (snd (put_replica w cancelled k v x c)) = h"
    using False h by (auto simp: put_replica_def Let_def)
  then show ?thesis
    using False pending_Store [of "wo_bt w" "wo_marshal w" "re_hint_os ?env" "re_hint_now ?env" "re_hint_put_now ?env"
        "n_ID x" k v "co_hints c" "co_local c" n] by (simp add: h)
qed

lemma run_put_hints:
  assumes "run_replicas (put_replica w cancelled k v) ns c = (rs, c')" "distinct (map n_ID ns)"
  shows "(n \<notin> n_ID ` set ns \<longrightarrow> pending (co_hints c') n = pending (co_hints c) n) \<and>
    (\<forall>x\<in>set ns. pending (co_hints c') (n_ID x) = pending (co_hints c) (n_ID x) @
     (if n_ID x \<noteq> rc_NodeID (co_cfg c) \<and> RPC_Put (wo_net w) cancelled (n_Address x) k v \<noteq> None
      then [\<lparr>hi_IntendedNode = n_ID x, hi_Key = k, hi_Value = v, hi_StoredAt = re_hint_now (wo_env w x)\<rparr>] else []))"
  using assms
proof (induction ns arbitrary: c rs n)
  case (Cons y ns)
  obtain r c1 where f: "put_replica w cancelled k v y c = (r, c1)" by (metis prod.exhaust)
  obtain rs1 where r: "run_replicas (put_replica w cancelled k v) ns c1 = (rs1, c')"
    using Cons.prems(1) by (auto simp: f split: prod.splits)
  have d: "distinct (map n_ID ns)" "n_ID y \<notin> n_ID ` set ns" using Cons.prems(2) by simp_all
  have cfg: "co_cfg c1 = co_cfg c" using put_replica_cfg [of w cancelled k v y c] by (simp add: f)
  have p: "pending (co_hints c1) m = pending (co_hints c) m @
     (if m = n_ID y \<and> n_ID y \<noteq> rc_NodeID (co_cfg c) \<and> RPC_Put (wo_net w) cancelled (n_Address y) k v \<noteq> None
      then [\<lparr>hi_IntendedNode = m, hi_Key = k, hi_Value = v, hi_StoredAt = re_hint_now (wo_env w y)\<rparr>] else [])" for m
    using put_replica_hints [of w cancelled k v y c m] by (simp add: f)
  note IH = Cons.IH [OF r d(1)]
  have y: "pending (co_hints c') (n_ID y) = pending (co_hints c1) (n_ID y)" using IH [of "n_ID y"] d(2) by blast
  show ?case
  proof (intro conjI impI ballI)
    assume "n \<notin> n_ID ` set (y # ns)"
    then show "pending (co_hints c') n = pending (co_hints c) n" using IH [of n] p [of n] by simp
  next
    fix x assume "x \<in> set (y # ns)"
    then consider "x = y" | "x \<in> set ns" "n_ID x \<noteq> n_ID y" using d(2) by (metis image_eqI set_ConsD)
    then show "pending (co_hints c') (n_ID x) = pending (co_hints c) (n_ID x) @
     (if n_ID x \<noteq> rc_NodeID (co_cfg c) \<and> RPC_Put (wo_net w) cancelled (n_Address x) k v \<noteq> None
      then [\<lparr>hi_IntendedNode = n_ID x, hi_Key = k, hi_Value = v, hi_StoredAt = re_hint_now (wo_env w x)\<rparr>] else [])"
    proof cases
      case 1
      then show ?thesis using y p [of "n_ID y"] by simp
    next
      case 2
      then show ?thesis using IH p [of "n_ID x"] cfg by auto
    qed
  qed
qed simp

section \<open>Read repair\<close>

lemma repair_replica_cfg: "co_cfg (repair_replica w cancelled k latest seen x c) = co_cfg c"
  by (simp add: repair_replica_def split: option.split)

lemma repair_remote: "n_ID x \<noteq> rc_NodeID (co_cfg c) \<Longrightarrow> repair_replica w cancelled k latest seen x c = c"
  by (simp add: repair_replica_def split: option.split)

lemma repair_round:
  assumes "distinct (map n_ID ns)" "l \<in> set ns" "n_ID l = rc_NodeID (co_cfg c)"
  shows "foldl (\<lambda>c x. repair_replica w cancelled k latest seen x c) c ns = repair_replica w cancelled k latest seen l c"
  using assms
proof (induction ns arbitrary: c)
  case (Cons x ns)
  let ?f = "\<lambda>c x. repair_replica w cancelled k latest seen x c"
  have others: "(\<forall>y\<in>set ns. n_ID y \<noteq> rc_NodeID (co_cfg c)) \<Longrightarrow> foldl ?f c ns = c" for ns c
    by (induction ns) (simp_all add: repair_remote)
  show ?case
  proof (cases "x = l")
    case True
    have "\<forall>y\<in>set ns. n_ID y \<noteq> rc_NodeID (co_cfg (?f c l))"
      using Cons.prems True by (auto simp: repair_replica_cfg image_iff)
    then show ?thesis using True others by simp
  next
    case False
    then have "l \<in> set ns" "n_ID x \<noteq> rc_NodeID (co_cfg c)" using Cons.prems by (auto simp: image_iff)
    then show ?thesis using Cons by (simp add: repair_remote)
  qed
qed simp

text \<open>The map of the answers by node.\<close>

lemma seen_by_node:
  "distinct (map rv_NodeID vs) \<Longrightarrow> v \<in> set vs \<Longrightarrow> foldl (\<lambda>m v. m(rv_NodeID v \<mapsto> v)) m0 vs (rv_NodeID v) = Some v"
proof (induction vs arbitrary: m0)
  case (Cons x vs)
  have "n \<notin> rv_NodeID ` set vs \<Longrightarrow> foldl (\<lambda>m v. m(rv_NodeID v \<mapsto> v)) m0 vs n = m0 n" for n m0
    by (induction vs arbitrary: m0) auto
  then show ?case using Cons by (cases "v = x") (auto simp del: fun_upd_apply simp: fun_upd_same)
qed simp

text \<open>The answers carry the names of the replicas.\<close>

lemma answers_named:
  assumes "list_all2 (\<lambda>n r. \<forall>v. r = Inr v \<longrightarrow> rv_NodeID v = n_ID n) ns rs" "distinct (map n_ID ns)"
  shows "distinct (map rv_NodeID (map projr (filter (\<lambda>r. \<not> isl r) rs)))"
proof -
  have "distinct (map rv_NodeID (map projr (filter (\<lambda>r. \<not> isl r) rs))) \<and>
      rv_NodeID ` set (map projr (filter (\<lambda>r. \<not> isl r) rs)) \<subseteq> n_ID ` set ns"
    using assms
  proof (induction ns rs rule: list_all2_induct)
    case (Cons n ns r rs)
    then show ?case by (cases r) auto
  qed simp
  then show ?thesis by blast
qed

text \<open>Reads leave the table alone.\<close>

lemma Engine_Get_table:
  "en_memtable (snd (Engine_Get bt k e)) = en_memtable e" "en_closed (snd (Engine_Get bt k e)) = en_closed e"
  by (simp_all add: Engine_Get_def Let_def with_metrics_def split: option.split)

definition reads_missing :: "'t world \<Rightarrow> key \<Rightarrow> 't Memtable \<Rightarrow> ReplConfig \<Rightarrow> 't Coordinator \<Rightarrow> bool" where
  "reads_missing w k m cfg c \<longleftrightarrow>
     en_memtable (co_local c) = m \<and> fst (Engine_Get (wo_bt w) k (co_local c)) = Inl ErrKeyNotFound \<and> co_cfg c = cfg"

lemma reads_missing_get:
  assumes "reads_missing w k m cfg c"
  shows "(n_ID x = rc_NodeID cfg \<longrightarrow> fst (get_replica w cancelled k x c) =
      Inr \<lparr>rv_NodeID = n_ID x, rv_Data = [], rv_Timestamp = 0, rv_Found = False\<rparr>) \<and>
    reads_missing w k m cfg (snd (get_replica w cancelled k x c))"
proof -
  have c: "\<not> en_closed (co_local c)" "Memtable_Get (wo_bt w) m k = None" "en_memtable (co_local c) = m" "co_cfg c = cfg"
    using assms by (auto simp: reads_missing_def Engine_Get_def Let_def split: if_splits option.splits)
  obtain e where e: "Engine_Get (wo_bt w) k (co_local c) = (Inl ErrKeyNotFound, e)"
    using assms unfolding reads_missing_def by (metis prod.collapse)
  have "en_memtable e = m" "\<not> en_closed e" using Engine_Get_table [of "wo_bt w" k "co_local c"] c by (simp_all add: e)
  then have "fst (Engine_Get (wo_bt w) k e) = Inl ErrKeyNotFound" using c(2) by (simp add: Engine_Get_def Let_def)
  with \<open>en_memtable e = m\<close> assms e c show ?thesis
    by (auto simp: get_replica_def reads_missing_def split: sum.splits)
qed

lemma run_get_missing:
  assumes "run_replicas (get_replica w cancelled k) ns c = (rs, c')" "reads_missing w k m cfg c" "distinct (map n_ID ns)"
    and "l \<in> set ns" "n_ID l = rc_NodeID cfg"
  shows "reads_missing w k m cfg c'" "Inr \<lparr>rv_NodeID = n_ID l, rv_Data = [], rv_Timestamp = 0, rv_Found = False\<rparr> \<in> set rs"
    "distinct (map rv_NodeID (map projr (filter (\<lambda>r. \<not> isl r) rs)))"
proof -
  let ?P = "\<lambda>n r. (\<forall>v. r = Inr v \<longrightarrow> rv_NodeID v = n_ID n) \<and>
    (n_ID n = rc_NodeID cfg \<longrightarrow> r = Inr \<lparr>rv_NodeID = n_ID n, rv_Data = [], rv_Timestamp = 0, rv_Found = False\<rparr>)"
  have "list_all2 ?P ns rs \<and> reads_missing w k m cfg c'"
    by (rule run_replicas_all [where I = "reads_missing w k m cfg", OF assms(1,2)])
      (use reads_missing_get get_replica_answer(2) in blast)
  then have all: "list_all2 ?P ns rs" and "reads_missing w k m cfg c'" by blast+
  then show "reads_missing w k m cfg c'" by blast
  show "distinct (map rv_NodeID (map projr (filter (\<lambda>r. \<not> isl r) rs)))"
    by (rule answers_named [OF _ assms(3)]) (use all in \<open>auto elim: list_all2_mono\<close>)
  obtain i where i: "i < length ns" "ns ! i = l" using assms(4) by (metis in_set_conv_nth)
  then have "?P l (rs ! i)" "i < length rs" using all by (auto simp: list_all2_conv_all_nth)
  then show "Inr \<lparr>rv_NodeID = n_ID l, rv_Data = [], rv_Timestamp = 0, rv_Found = False\<rparr> \<in> set rs"
    using assms(5) by (metis nth_mem)
qed

lemma readRepair_missing:
  assumes rep: "rep = (latest, ns, vals)" and d: "distinct (map n_ID ns)" "distinct (map rv_NodeID vals)"
    and l: "l \<in> set ns" "n_ID l = rc_NodeID (co_cfg c)" and rv: "rv \<in> set vals" "rv_NodeID rv = n_ID l" "\<not> rv_Found rv"
  shows "co_local (readRepair w cancelled k rep c) =
    snd (Engine_Put (wo_bt w) (re_os (wo_env w l)) (re_now (wo_env w l)) k (rv_Data latest) (co_local c))"
proof -
  let ?m = "foldl (\<lambda>m v. m(rv_NodeID v \<mapsto> v)) Map.empty vals"
  have "?m (n_ID l) = Some rv" using seen_by_node [OF d(2) rv(1), of Map.empty] rv(2) by simp
  then have "repair_replica w cancelled k latest ?m l c =
      c\<lparr>co_local := snd (Engine_Put (wo_bt w) (re_os (wo_env w l)) (re_now (wo_env w l)) k (rv_Data latest) (co_local c))\<rparr>"
    using l(2) rv(3) by (simp add: repair_replica_def)
  moreover have "readRepair w cancelled k rep c = repair_replica w cancelled k latest ?m l c"
    by (simp only: rep readRepair_def Let_def prod.case repair_round [OF d(1) l])
  ultimately show ?thesis by simp
qed

section \<open>The cluster of two nodes, continued\<close>

text \<open>The local engine deleted \<open>a\<close>; the remote node still has a value for it.\<close>

lemma demo_replicas_a: "getReplicas toy_sha demo_coord ''a'' = Some (Inr [node_b, node_d])"
proof -
  have r: "ring_ok toy_sha toy_ring" "ring_full toy_sha toy_ring" "r_nodes toy_ring \<noteq> []"
    using ring_reach_ok [OF toy_reach] ring_reach_full [OF toy_reach toy_no_collisions] by (simp_all add: toy_sel)
  have h: "hashKey toy_sha ''a'' = 0x61000000" by (simp add: hashKey_def toy_sha_def be_decode_def)
  have s: "ring_search toy_ring 0x61000000 = 0"
    by (simp add: ring_search_def sort_Search_def search_loop.simps toy_sel)
  have "clockwise toy_ring 0 = [node_b, node_d]" by (simp add: clockwise_def toy_sel node_b_def node_d_def)
  then show ?thesis
    using full_successors(1) [OF r, of "''a''" 2]
    by (simp add: getReplicas_def demo_coord_def NewCoordinator_def ReplConfig_Default_def Ring_Size_def toy_sel h s
        first_of_each_def node_b_def node_d_def)
qed

definition demo_read :: "Entry slist StorageEngine" where
  "demo_read = snd (Engine_Get slist_ops ''a'' demo2)"

lemma demo_get_a:
  "run_replicas (get_replica demo_world False ''a'') [node_b, node_d] demo_coord =
    ([Inr \<lparr>rv_NodeID = ''b'', rv_Data = [], rv_Timestamp = 0, rv_Found = False\<rparr>,
      Inr \<lparr>rv_NodeID = ''d'', rv_Data = ''v'', rv_Timestamp = 10, rv_Found = True\<rparr>], demo_coord\<lparr>co_local := demo_read\<rparr>)"
proof -
  have "Memtable_Get slist_ops (en_memtable demo2) ''a'' = None" unfolding demo_tables by code_simp
  then have "Engine_Get slist_ops ''a'' demo2 = (Inl ErrKeyNotFound, demo_read)"
    using demo2_wal(3) by (simp add: demo_read_def Engine_Get_def Let_def)
  then show ?thesis by (simp add: get_replica_def RPC_Get_def client_do_def demo_simps)
qed

lemma demo_read_put: "fst (Engine_Put slist_ops (os_fine 4) 4 ''a'' v demo_read) = None"
proof -
  have d: "demo_read = with_metrics [IncGets, ObserveDuration ''get''] demo2"
    using demo2_wal(3) by (simp add: demo_read_def Engine_Get_def Let_def split: option.split)
  show ?thesis using demo2_wal unfolding d by (simp add: with_metrics_def Engine_Put_def WAL_Append_fine Let_def DefaultConfig_def)
qed

lemma demo_world_placed: "placed (wo_sha demo_world) 1 {''b'', ''d''} demo_coord"
  using demo_placed by (simp add: demo_world_def)

lemma demo_world_replicas_a: "getReplicas (wo_sha demo_world) demo_coord ''a'' = Some (Inr [node_b, node_d])"
  using demo_replicas_a by (simp add: demo_world_def)

lemma schedule_id [simp]: "schedule (\<lambda>ns. ns)"
  by (simp add: schedule_def)

text \<open>The same cluster when the remote node is down.\<close>

definition down_world :: "Entry slist world" where
  "down_world = demo_world\<lparr>wo_net := \<lparr>net_url_ok = (\<lambda>_. True), net_do = (\<lambda>_. HttpFailed)\<rparr>\<rparr>"

lemma down_world_sel [simp]: "wo_sha down_world = wo_sha demo_world" "wo_env down_world = wo_env demo_world"
    "RPC_Put (wo_net down_world) cancelled address k v = Some ErrTransport"
  by (simp_all add: down_world_def RPC_Put_def client_do_def)

section \<open>Properties\<close>

text \<open>
  C6. What a read answers, in whatever order the replicas finish: a value is one that some replica
  returned, the newest of all returned, and enough replicas answered; otherwise no replica returned
  a value or too few answered. The answer is \<open>key not found\<close> exactly when every replica answered
  that it has none.
\<close>

theorem get_answers_newest:
  assumes "placed (wo_sha w) vn N c" "schedule sched"
  shows "\<exists>ns rs c' ans rep. getReplicas (wo_sha w) c k = Some (Inr ns) \<and>
    run_replicas (get_replica w cancelled k) (sched ns) c = (rs, c') \<and>
    Coordinator_Get w sched cancelled k level c = Some (ans, rep, c') \<and>
    (case ans of
       Inr (d, ts) \<Rightarrow>
         quorumSizeFor (co_cfg c) level (int (length ns)) \<le> int (length (filter (\<lambda>r. \<not> isl r) rs)) \<and>
         (\<exists>v. Inr v \<in> set rs \<and> rv_Found v \<and> rv_Data v = d \<and> rv_Timestamp v = ts) \<and>
         (\<forall>v. Inr v \<in> set rs \<longrightarrow> rv_Found v \<longrightarrow> rv_Timestamp v \<le> ts)
     | Inl err \<Rightarrow> rep = None \<and> ((\<forall>v. Inr v \<in> set rs \<longrightarrow> \<not> rv_Found v) \<or>
         int (length (filter (\<lambda>r. \<not> isl r) rs)) < quorumSizeFor (co_cfg c) level (int (length ns)))) \<and>
    (ans = Inl (ErrLocal ErrKeyNotFound) \<longleftrightarrow> (\<forall>r\<in>set rs. \<exists>v. r = Inr v \<and> \<not> rv_Found v))"
proof -
  obtain ns where ns: "getReplicas (wo_sha w) c k = Some (Inr ns)" using getReplicas_placed [OF assms(1)] by blast
  obtain rs c' where r: "run_replicas (get_replica w cancelled k) (sched ns) c = (rs, c')" by (metis prod.exhaust)
  let ?q = "quorumSizeFor (co_cfg c) level (int (length ns))"
  obtain ans rep where g: "get_result ?q ns (get_collect rs ([], None)) = (ans, rep)" by (metis prod.exhaust)
  have get: "Coordinator_Get w sched cancelled k level c = Some (ans, rep, c')"
    by (simp add: Coordinator_Get_def ns r g Let_def)
  have "list_all2 (\<lambda>n r. r \<noteq> Inl (ErrLocal ErrKeyNotFound)) (sched ns) rs"
    using run_replicas_all [where I = "\<lambda>_. True" and P = "\<lambda>n r. r \<noteq> Inl (ErrLocal ErrKeyNotFound)", OF r]
    by (simp add: get_replica_answer(1))
  then have "Inl (ErrLocal ErrKeyNotFound) \<notin> set rs" by (auto simp: list_all2_conv_all_nth in_set_conv_nth)
  note miss = get_result_missing [OF this, of ?q ns, unfolded g fst_conv]
  have body: "case ans of
       Inr (d, ts) \<Rightarrow>
         ?q \<le> int (length (filter (\<lambda>r. \<not> isl r) rs)) \<and>
         (\<exists>v. Inr v \<in> set rs \<and> rv_Found v \<and> rv_Data v = d \<and> rv_Timestamp v = ts) \<and>
         (\<forall>v. Inr v \<in> set rs \<longrightarrow> rv_Found v \<longrightarrow> rv_Timestamp v \<le> ts)
     | Inl err \<Rightarrow> rep = None \<and> ((\<forall>v. Inr v \<in> set rs \<longrightarrow> \<not> rv_Found v) \<or>
         int (length (filter (\<lambda>r. \<not> isl r) rs)) < ?q)"
  proof (cases ans)
    case (Inl err)
    then show ?thesis using get_result_error [of ?q ns rs err rep] g by simp
  next
    case (Inr a)
    obtain d ts where a: "a = (d, ts)" by (cases a)
    show ?thesis using get_result_success [of ?q ns rs d ts rep] g by (auto simp: Inr a)
  qed
  show ?thesis
    by (rule exI [of _ ns], rule exI [of _ rs], rule exI [of _ c'], rule exI [of _ ans], rule exI [of _ rep])
      (rule conjI [OF ns conjI [OF r conjI [OF get conjI [OF body miss]]]])
qed

theorem get_answers_newest_witness:
  "\<exists>ans rep c'. Coordinator_Get demo_world (\<lambda>ns. ns) False ''a'' Quorum demo_coord = Some (ans, rep, c') \<and>
     ans \<noteq> Inl (ErrLocal ErrKeyNotFound)"
proof -
  obtain ns rs c' ans rep where "getReplicas (wo_sha demo_world) demo_coord ''a'' = Some (Inr ns)"
      "run_replicas (get_replica demo_world False ''a'') ns demo_coord = (rs, c')"
      "Coordinator_Get demo_world (\<lambda>ns. ns) False ''a'' Quorum demo_coord = Some (ans, rep, c')"
      "ans = Inl (ErrLocal ErrKeyNotFound) \<longleftrightarrow> (\<forall>r\<in>set rs. \<exists>v. r = Inr v \<and> \<not> rv_Found v)"
    using get_answers_newest [OF demo_world_placed schedule_id, of "''a''" False Quorum] by blast
  moreover from this have "\<exists>r\<in>set rs. \<exists>v. r = Inr v \<and> rv_Found v"
    using demo_get_a demo_world_replicas_a by (auto simp del: run_replicas.simps)
  ultimately show ?thesis by fastforce
qed

text \<open>
  C8. Hints after a put: for every replica of the key, one hint with the key and value is added
  exactly when the replica is another node and the call to it failed; the hints of nodes that are
  not replicas stay as they are. A delete leaves no hints whatever fails.
\<close>

theorem put_hints_exact:
  assumes "placed (wo_sha w) vn N c" "schedule sched" "getReplicas (wo_sha w) c k = Some (Inr ns)"
    and "Coordinator_Put w sched cancelled k v level c = Some (err, c')"
    and "Coordinator_Delete w sched' cancelled' k' level' c = Some (err', c'')"
  shows "(\<forall>x\<in>set ns. pending (co_hints c') (n_ID x) = pending (co_hints c) (n_ID x) @
      (if n_ID x \<noteq> rc_NodeID (co_cfg c) \<and> RPC_Put (wo_net w) cancelled (n_Address x) k v \<noteq> None
       then [\<lparr>hi_IntendedNode = n_ID x, hi_Key = k, hi_Value = v, hi_StoredAt = re_hint_now (wo_env w x)\<rparr>] else [])) \<and>
    (\<forall>n. n \<notin> n_ID ` set ns \<longrightarrow> pending (co_hints c') n = pending (co_hints c) n) \<and> co_hints c'' = co_hints c"
proof -
  obtain rs where r: "run_replicas (put_replica w cancelled k v) (sched ns) c = (rs, c')"
    using assms(4) by (auto simp: Coordinator_Put_def assms(3) Let_def split: prod.splits)
  have "distinct (map n_ID ns)" using getReplicas_placed [OF assms(1), of k] assms(3) by auto
  then have d: "distinct (map n_ID (sched ns))"
    using assms(2) by (metis schedule_def mset_eq_imp_distinct_iff mset_map)
  have s: "set (sched ns) = set ns" by (rule schedule_facts(1) [OF assms(2)])
  have step: "co_hints (snd (delete_replica w cancelled' k' n d)) = co_hints d" for n d
    by (simp add: delete_replica_def split: prod.split)
  have "co_hints c'' = co_hints c" if "run_replicas (delete_replica w cancelled' k') ms c = (rs', c'')" for ms rs'
    using run_replicas_all [where I = "\<lambda>d. co_hints d = co_hints c" and P = "\<lambda>_ _. True", OF that refl] step by simp
  then have "co_hints c'' = co_hints c"
    using assms(5) by (auto simp: Coordinator_Delete_def Let_def split: option.splits sum.splits prod.splits)
  then show ?thesis using run_put_hints [OF r d] unfolding s by blast
qed

theorem put_hints_exact_witness:
  "\<exists>err c'. Coordinator_Put down_world (\<lambda>ns. ns) False ''a'' ''v'' One demo_coord = Some (err, c') \<and>
     pending (co_hints c') ''d'' = [\<lparr>hi_IntendedNode = ''d'', hi_Key = ''a'', hi_Value = ''v'', hi_StoredAt = 4\<rparr>] \<and>
     pending (co_hints c') ''b'' = []"
proof -
  have p: "placed (wo_sha down_world) 1 {''b'', ''d''} demo_coord"
      "getReplicas (wo_sha down_world) demo_coord ''a'' = Some (Inr [node_b, node_d])"
    using demo_world_placed demo_world_replicas_a by simp_all
  obtain err c' where put: "Coordinator_Put down_world (\<lambda>ns. ns) False ''a'' ''v'' One demo_coord = Some (err, c')"
    by (cases "run_replicas (put_replica down_world False ''a'' ''v'') [node_b, node_d] demo_coord")
      (simp add: Coordinator_Put_def demo_world_replicas_a Let_def del: run_replicas.simps)
  obtain err' c'' where del: "Coordinator_Delete down_world (\<lambda>ns. ns) False ''a'' One demo_coord = Some (err', c'')"
    by (cases "run_replicas (delete_replica down_world False ''a'') [node_b, node_d] demo_coord")
      (simp add: Coordinator_Delete_def demo_world_replicas_a Let_def del: run_replicas.simps)
  show ?thesis
    using put_hints_exact [OF p(1) schedule_id p(2) put del] put by (simp add: demo_simps pending_def NewHintedHandoff_def)
qed

text \<open>
  C36. Deletes come back: after the local engine deleted a key, a read that reaches a replica which
  still has a value returns that value, and the read repair it starts puts the value back into the
  local engine, stamped with the time of the repair.
\<close>

theorem delete_resurrected:
  assumes "btree (wo_bt w) entryLess ok" "placed (wo_sha w) vn N c" "schedule sched" "getReplicas (wo_sha w) c k = Some (Inr ns)"
    and "l \<in> set ns" "n_ID l = rc_NodeID (co_cfg c)" "mt_ok (wo_bt w) ok (en_memtable e0)"
    and "Engine_Delete (wo_bt w) os t0 k e0 = (None, co_local c)"
    and "run_replicas (get_replica w cancelled k) (sched ns) c = (rs, c1)" "Inr rv \<in> set rs" "rv_Found rv"
    and "quorumSizeFor (co_cfg c) level (int (length ns)) \<le> int (length (filter (\<lambda>r. \<not> isl r) rs))"
    and "\<forall>v. Inr v \<in> set rs \<longrightarrow>
      fst (Engine_Put (wo_bt w) (re_os (wo_env w l)) (re_now (wo_env w l)) k (rv_Data v) (co_local c1)) = None"
  shows "\<exists>d ts rep. Coordinator_Get w sched cancelled k level c = Some (Inr (d, ts), Some rep, c1) \<and>
    rv_Timestamp rv \<le> ts \<and> fst (Engine_Get (wo_bt w) k (co_local c1)) = Inl ErrKeyNotFound \<and>
    fst (Engine_Get (wo_bt w) k (co_local (readRepair w cancelled' k rep c1))) =
      Inr \<lparr>v_Data = d, v_Timestamp = re_now (wo_env w l)\<rparr>"
proof -
  note et = entry_tree.intro [OF assms(1)]
  let ?q = "quorumSizeFor (co_cfg c) level (int (length ns))" and ?vals = "map projr (filter (\<lambda>r. \<not> isl r) rs)"
  have dn: "distinct (map n_ID ns)" using getReplicas_placed [OF assms(2), of k] assms(4) by auto
  have ds: "distinct (map n_ID (sched ns))" using dn assms(3) by (metis schedule_def mset_eq_imp_distinct_iff mset_map)
  have ls: "l \<in> set (sched ns)" using assms(5) schedule_facts(1) [OF assms(3)] by simp
  have "reads_missing w k (en_memtable (co_local c)) (co_cfg c) c"
    using entry_tree.engine_delete_get [OF et assms(7,8), of k] by (simp add: reads_missing_def)
  note run = run_get_missing [OF assms(9) this ds ls assms(6)]
  have c1: "en_memtable (co_local c1) = en_memtable (co_local c)" "co_cfg c1 = co_cfg c"
      "fst (Engine_Get (wo_bt w) k (co_local c1)) = Inl ErrKeyNotFound"
    using run(1) by (simp_all add: reads_missing_def)
  obtain ans rep where g: "get_result ?q ns (get_collect rs ([], None)) = (ans, rep)" by (metis prod.exhaust)
  have get: "Coordinator_Get w sched cancelled k level c = Some (ans, rep, c1)"
    by (simp add: Coordinator_Get_def assms(4,9) g Let_def)
  obtain d ts where ans: "ans = Inr (d, ts)"
    using get_result_error [of ?q ns rs _ rep] g assms(10-12) by (cases ans) force+
  from get_result_success [of ?q ns rs d ts rep] g ans obtain v where
      v: "Inr v \<in> set rs" "rv_Found v" "rv_Data v = d" "rep = Some (v, ns, ?vals)" and
      top: "\<forall>v. Inr v \<in> set rs \<longrightarrow> rv_Found v \<longrightarrow> rv_Timestamp v \<le> ts" by blast
  let ?l = "\<lparr>rv_NodeID = n_ID l, rv_Data = [], rv_Timestamp = 0, rv_Found = False\<rparr>"
  have "?l \<in> set ?vals" using run(2) by (force simp: image_iff)
  then have "co_local (readRepair w cancelled' k (v, ns, ?vals) c1) =
      snd (Engine_Put (wo_bt w) (re_os (wo_env w l)) (re_now (wo_env w l)) k d (co_local c1))"
    using readRepair_missing [OF refl dn run(3) assms(5), of c1 ?l] assms(6) c1(2) v(3) by simp
  moreover have "Engine_Put (wo_bt w) (re_os (wo_env w l)) (re_now (wo_env w l)) k d (co_local c1) =
      (None, snd (Engine_Put (wo_bt w) (re_os (wo_env w l)) (re_now (wo_env w l)) k d (co_local c1)))"
    using assms(13) v(1,3) by (metis prod.collapse)
  moreover have "mt_ok (wo_bt w) ok (en_memtable (co_local c1))"
    using entry_tree.delete_ok [OF et assms(7)] Engine_Delete_success [OF assms(8)] c1(1) by simp
  ultimately have again: "fst (Engine_Get (wo_bt w) k (co_local (readRepair w cancelled' k (v, ns, ?vals) c1))) =
      Inr \<lparr>v_Data = d, v_Timestamp = re_now (wo_env w l)\<rparr>"
    using entry_tree.engine_put_get [OF et, of "co_local c1" "re_os (wo_env w l)" "re_now (wo_env w l)" k d _ k] by simp
  have "rv_Timestamp rv \<le> ts" using top assms(10,11) by simp
  with again c1(3) get ans v(4) show ?thesis
    by (intro exI [of _ d] exI [of _ ts] exI [of _ "(v, ns, ?vals)"]) simp
qed

theorem delete_resurrected_witness:
  "\<exists>d ts rep. Coordinator_Get demo_world (\<lambda>ns. ns) False ''a'' Quorum demo_coord =
      Some (Inr (d, ts), Some rep, demo_coord\<lparr>co_local := demo_read\<rparr>) \<and> 10 \<le> ts \<and>
    fst (Engine_Get slist_ops ''a'' demo_read) = Inl ErrKeyNotFound \<and>
    fst (Engine_Get slist_ops ''a'' (co_local (readRepair demo_world True ''a'' rep (demo_coord\<lparr>co_local := demo_read\<rparr>)))) =
      Inr \<lparr>v_Data = d, v_Timestamp = 4\<rparr>"
proof -
  have w: "wo_bt demo_world = slist_ops" "re_os (wo_env demo_world x) = os_fine 4" "re_now (wo_env demo_world x) = 4" for x
    by (simp_all add: demo_world_def)
  have c: "co_local demo_coord = demo2" "n_ID node_b = rc_NodeID (co_cfg demo_coord)"
      "quorumSizeFor (co_cfg demo_coord) Quorum 2 = 2"
    by (simp_all add: demo_simps quorumSizeFor_def sdiv_2_pos)
  show ?thesis
    using delete_resurrected [where w = demo_world and sched = "\<lambda>ns. ns" and ok = "slist_inv entryLess" and l = node_b and level = Quorum
        and rv = "\<lparr>rv_NodeID = ''d'', rv_Data = ''v'', rv_Timestamp = 10, rv_Found = True\<rparr>" and ?e0.0 = demo1 and os = "os_fine 3" and ?t0.0 = 3 and cancelled' = True, OF _ demo_world_placed schedule_id demo_world_replicas_a _ c(2) _ _ demo_get_a]
      slist.btree_axioms demo_ok(1) demo2_delete demo_read_put c
    by (simp add: w)
qed

end
