(* ===== verification/KV_Session.thy ===== *)
theory KV_Session
  imports KV_Config
begin

text \<open>
  \<open>consistency/session.go\<close> and \<open>consistency/guarantees.go\<close>: client sessions, their last
  read and write timestamps, the reaper, and the two checks. Times are nanoseconds; the clock
  and the random bytes are arguments. The map of sessions is an association list.
\<close>

section \<open>Sessions\<close>

definition sessionTTL :: int where "sessionTTL = 5 * minute_ns"

record Session =
  ss_ID :: string
  ss_LastWriteTS :: int
  ss_LastReadTS :: int
  ss_StickyReplica :: string
  ss_lastAccessed :: int

record SessionManager =
  sm_sessions :: "(string \<times> Session) list"
  sm_ttl :: int

definition SessionManager_New :: SessionManager where
  "SessionManager_New = \<lparr>sm_sessions = [], sm_ttl = sessionTTL\<rparr>"

definition newSessionID :: "bytes \<Rightarrow> string" where
  "newSessionID random = hex_encode random"

definition set_session :: "string \<Rightarrow> Session \<Rightarrow> SessionManager \<Rightarrow> SessionManager" where
  "set_session sid s m = m\<lparr>sm_sessions := AList.update sid s (sm_sessions m)\<rparr>"

text \<open>\<open>GetOrCreate\<close>: \<open>random\<close> are the sixteen bytes read when the id is empty.\<close>

definition GetOrCreate :: "int \<Rightarrow> bytes \<Rightarrow> string \<Rightarrow> SessionManager \<Rightarrow> Session \<times> SessionManager" where
  "GetOrCreate now random sid0 m =
     (let sid = (if sid0 = [] then newSessionID random else sid0);
          s = (case map_of (sm_sessions m) sid of
                 Some s \<Rightarrow> s
               | None \<Rightarrow> \<lparr>ss_ID = sid, ss_LastWriteTS = 0, ss_LastReadTS = 0, ss_StickyReplica = [], ss_lastAccessed = 0\<rparr>);
          s1 = s\<lparr>ss_lastAccessed := now\<rparr>
      in (s1, set_session sid s1 m))"

definition TrackWrite :: "int \<Rightarrow> string \<Rightarrow> int \<Rightarrow> SessionManager \<Rightarrow> SessionManager" where
  "TrackWrite now sid ts m =
     (case map_of (sm_sessions m) sid of
        None \<Rightarrow> m
      | Some s \<Rightarrow>
          let s1 = (if ss_LastWriteTS s < ts then s\<lparr>ss_LastWriteTS := ts\<rparr> else s)
          in set_session sid (s1\<lparr>ss_lastAccessed := now\<rparr>) m)"

definition TrackRead :: "int \<Rightarrow> string \<Rightarrow> int \<Rightarrow> SessionManager \<Rightarrow> SessionManager" where
  "TrackRead now sid ts m =
     (case map_of (sm_sessions m) sid of
        None \<Rightarrow> m
      | Some s \<Rightarrow>
          let s1 = (if ss_LastReadTS s < ts then s\<lparr>ss_LastReadTS := ts\<rparr> else s)
          in set_session sid (s1\<lparr>ss_lastAccessed := now\<rparr>) m)"

definition SetStickyReplica :: "string \<Rightarrow> string \<Rightarrow> SessionManager \<Rightarrow> SessionManager" where
  "SetStickyReplica sid nodeID m =
     (case map_of (sm_sessions m) sid of
        None \<Rightarrow> m
      | Some s \<Rightarrow> set_session sid (s\<lparr>ss_StickyReplica := nodeID\<rparr>) m)"

definition Session_Get :: "int \<Rightarrow> string \<Rightarrow> SessionManager \<Rightarrow> Session option \<times> SessionManager" where
  "Session_Get now sid m =
     (case map_of (sm_sessions m) sid of
        None \<Rightarrow> (None, m)
      | Some s \<Rightarrow> let s1 = s\<lparr>ss_lastAccessed := now\<rparr> in (Some s1, set_session sid s1 m))"

text \<open>Deleting from a map while ranging over it: every entry is visited, the idle ones go.\<close>

definition reap :: "int \<Rightarrow> SessionManager \<Rightarrow> SessionManager" where
  "reap now m =
     (let cutoff = now - sm_ttl m
      in foldl (\<lambda>m (sid, s). if ss_lastAccessed s < cutoff
                             then m\<lparr>sm_sessions := AList.delete sid (sm_sessions m)\<rparr> else m) m (sm_sessions m))"

section \<open>Checks\<close>

record ReadResult =
  rr_Data :: bytes
  rr_Timestamp :: int
  rr_SessionID :: string
  rr_NodeID :: string

record WriteResult =
  wr_Timestamp :: int
  wr_SessionID :: string

definition CheckReadYourWrites :: "Session option \<Rightarrow> int \<Rightarrow> bool" where
  "CheckReadYourWrites session readTS =
     (case session of None \<Rightarrow> True | Some s \<Rightarrow> ss_LastWriteTS s \<le> readTS)"

definition CheckMonotonicRead :: "Session option \<Rightarrow> int \<Rightarrow> bool" where
  "CheckMonotonicRead session readTS =
     (case session of None \<Rightarrow> True | Some s \<Rightarrow> ss_LastReadTS s \<le> readTS)"

section \<open>What the operations do to a session\<close>

definition find_session :: "string \<Rightarrow> SessionManager \<Rightarrow> Session option" where
  "find_session sid m = map_of (sm_sessions m) sid"

definition sessions_ok :: "SessionManager \<Rightarrow> bool" where
  "sessions_ok m \<longleftrightarrow> distinct (map fst (sm_sessions m)) \<and> (\<forall>sid s. find_session sid m = Some s \<longrightarrow> ss_ID s = sid)"

lemma find_set_session [simp]:
  "find_session sid (set_session sid' s m) = (if sid = sid' then Some s else find_session sid m)"
  by (simp add: find_session_def set_session_def AList.update_conv')

lemma sessions_ok_ID: "sessions_ok m \<Longrightarrow> find_session sid m = Some s \<Longrightarrow> ss_ID s = sid"
  by (simp add: sessions_ok_def)

lemma set_session_ok: "sessions_ok m \<Longrightarrow> ss_ID s = sid \<Longrightarrow> sessions_ok (set_session sid s m)"
  by (auto simp: sessions_ok_def distinct_update set_session_def find_session_def AList.update_conv')

lemma find_GetOrCreate:
  "sid \<noteq> [] \<Longrightarrow> find_session sid (snd (GetOrCreate now random sid m)) = Some (fst (GetOrCreate now random sid m))"
  by (simp add: GetOrCreate_def Let_def)

lemma GetOrCreate_ok: "sessions_ok m \<Longrightarrow> sessions_ok (snd (GetOrCreate now random sid m))"
  by (auto simp: GetOrCreate_def Let_def find_session_def [symmetric] sessions_ok_ID intro!: set_session_ok split: option.split)

lemma find_TrackWrite:
  "find_session sid (TrackWrite now sid' ts m) =
     (if sid = sid' then map_option (\<lambda>s. s\<lparr>ss_LastWriteTS := max (ss_LastWriteTS s) ts, ss_lastAccessed := now\<rparr>) (find_session sid m)
      else find_session sid m)"
  by (auto simp: TrackWrite_def Let_def find_session_def [symmetric] max_def split: option.split)

lemma find_TrackRead:
  "find_session sid (TrackRead now sid' ts m) =
     (if sid = sid' then map_option (\<lambda>s. s\<lparr>ss_LastReadTS := max (ss_LastReadTS s) ts, ss_lastAccessed := now\<rparr>) (find_session sid m)
      else find_session sid m)"
  by (auto simp: TrackRead_def Let_def find_session_def [symmetric] max_def split: option.split)

lemma reap_loop:
  "foldl (\<lambda>m (sid, s). if ss_lastAccessed s < c then m\<lparr>sm_sessions := AList.delete sid (sm_sessions m)\<rparr> else m) m xs =
   m\<lparr>sm_sessions := foldl (\<lambda>ys (sid, s). if ss_lastAccessed s < c then AList.delete sid ys else ys) (sm_sessions m) xs\<rparr>"
  by (induction xs arbitrary: m) auto

lemma find_reap:
  assumes "sessions_ok m"
  shows "find_session sid (reap now m) =
    (case find_session sid m of Some s \<Rightarrow> if ss_lastAccessed s < now - sm_ttl m then None else Some s | None \<Rightarrow> None)"
proof -
  let ?del = "foldl (\<lambda>ys (sid, s). if ss_lastAccessed s < now - sm_ttl m then AList.delete sid ys else ys)"
  have del: "map_of (?del ys xs) sid =
      (if \<exists>s. (sid, s) \<in> set xs \<and> ss_lastAccessed s < now - sm_ttl m then None else map_of ys sid)" for xs ys
    by (induction xs arbitrary: ys) (auto simp: AList.delete_conv')
  have "find_session sid (reap now m) =
      (if \<exists>s. (sid, s) \<in> set (sm_sessions m) \<and> ss_lastAccessed s < now - sm_ttl m then None else find_session sid m)"
    using del [of "sm_sessions m" "sm_sessions m"] by (auto simp: reap_def Let_def reap_loop find_session_def)
  moreover have "(sid, s) \<in> set (sm_sessions m) \<longleftrightarrow> find_session sid m = Some s" for s
    using assms by (simp add: sessions_ok_def find_session_def)
  ultimately show ?thesis by (auto split: option.split)
qed

section \<open>Properties\<close>

text \<open>
  C29. The monotonic-read flag is exact: after any sequence of reads tracked in a session, the check
  accepts a timestamp iff it is not smaller than any of them nor than what the session had seen
  before.
\<close>

theorem monotonic_flag_exact:
  assumes "find_session sid m = Some s"
  shows "CheckMonotonicRead (find_session sid (foldl (\<lambda>m (now, ts). TrackRead now sid ts m) m reads)) t \<longleftrightarrow>
    ss_LastReadTS s \<le> t \<and> (\<forall>(now, ts)\<in>set reads. ts \<le> t)"
  using assms
proof (induction reads arbitrary: m s)
  case Nil
  then show ?case by (simp add: CheckMonotonicRead_def)
next
  case (Cons r reads)
  obtain now ts where r: "r = (now, ts)" by (cases r)
  let ?s = "s\<lparr>ss_LastReadTS := max (ss_LastReadTS s) ts, ss_lastAccessed := now\<rparr>"
  have "find_session sid (TrackRead now sid ts m) = Some ?s" using Cons.prems by (simp add: find_TrackRead)
  from Cons.IH [OF this] show ?case by (auto simp: r)
qed

definition demo_sessions :: SessionManager where
  "demo_sessions = snd (GetOrCreate 100 [] ''s1'' SessionManager_New)"

lemma demo_session: "find_session ''s1'' demo_sessions =
    Some \<lparr>ss_ID = ''s1'', ss_LastWriteTS = 0, ss_LastReadTS = 0, ss_StickyReplica = [], ss_lastAccessed = 100\<rparr>"
  by (simp add: demo_sessions_def GetOrCreate_def SessionManager_New_def Let_def)

theorem monotonic_flag_exact_witness:
  "CheckMonotonicRead (find_session ''s1'' (foldl (\<lambda>m (now, ts). TrackRead now ''s1'' ts m) demo_sessions [(101, 7), (102, 5)])) 7 \<and>
   \<not> CheckMonotonicRead (find_session ''s1'' (foldl (\<lambda>m (now, ts). TrackRead now ''s1'' ts m) demo_sessions [(101, 7), (102, 5)])) 6"
  using monotonic_flag_exact [OF demo_session, of "[(101, 7), (102, 5)]" 7]
    monotonic_flag_exact [OF demo_session, of "[(101, 7), (102, 5)]" 6] by simp

text \<open>
  The reaper removes exactly the sessions that were idle for longer than the time to live and
  leaves the others untouched; a client whose session was reaped starts with empty guarantees.
\<close>

theorem reap_exact:
  assumes "sessions_ok m" "sid \<noteq> []"
  shows "find_session sid (reap now m) =
      (case find_session sid m of Some s \<Rightarrow> if sm_ttl m < now - ss_lastAccessed s then None else Some s | None \<Rightarrow> None) \<and>
    (find_session sid (reap now m) = None \<longrightarrow>
       CheckReadYourWrites (Some (fst (GetOrCreate now' random sid (reap now m)))) 0)"
  using find_reap [OF assms(1), of sid now] assms(2)
  by (auto simp: GetOrCreate_def Let_def CheckReadYourWrites_def find_session_def [symmetric] algebra_simps split: option.split)

theorem reap_exact_witness:
  "find_session ''s1'' (reap (100 + sessionTTL) demo_sessions) = find_session ''s1'' demo_sessions \<and>
   find_session ''s1'' (reap (101 + sessionTTL) demo_sessions) = None"
proof -
  have "sessions_ok SessionManager_New" by (simp add: sessions_ok_def SessionManager_New_def find_session_def)
  then have ok: "sessions_ok demo_sessions" unfolding demo_sessions_def by (rule GetOrCreate_ok)
  have "sm_ttl demo_sessions = sessionTTL" by (simp add: demo_sessions_def GetOrCreate_def SessionManager_New_def Let_def set_session_def)
  then show ?thesis
    using reap_exact [OF ok, of "''s1''" "100 + sessionTTL"] reap_exact [OF ok, of "''s1''" "101 + sessionTTL"]
    by (simp add: demo_session)
qed

end
