(* ===== verification/KV_Merkle.thy ===== *)
theory KV_Merkle
  imports KV_Prelude "HOL-Library.Multiset"
begin

text \<open>
  \<open>sync/merkle.go\<close>: the Merkle tree over 1024 buckets, in heap layout, and the search for
  differing buckets. The digest is an argument, as for the ring. \<open>sort.Slice\<close> is not stable, so
  the order it gives to entries with equal keys is an argument too: any function that sorts.
\<close>

section \<open>The tree\<close>

definition numBuckets :: nat where "numBuckets = 1024"

record MerkleEntry =
  me_Key :: key
  me_Value :: bytes

record MerkleTree =
  tr_buckets :: "string list"
  tr_nodes :: "string list"
  tr_RootHash :: string

datatype merkle_error = PanicIndexOutOfRange

definition bucketIndex :: "(bytes \<Rightarrow> bytes) \<Rightarrow> key \<Rightarrow> nat" where
  "bucketIndex sha k = be_decode (take 2 (sha k)) mod numBuckets"

definition emptyHash :: "(bytes \<Rightarrow> bytes) \<Rightarrow> string" where
  "emptyHash sha = hex_encode (sha [])"

definition bucket_input :: "MerkleEntry list \<Rightarrow> bytes" where
  "bucket_input entries =
     foldl (\<lambda>h e. h @ me_Key e @ [CHR 0x00] @ me_Value e @ [CHR 0x00]) [] entries"

definition hashBucket :: "(bytes \<Rightarrow> bytes) \<Rightarrow> MerkleEntry list \<Rightarrow> string" where
  "hashBucket sha entries =
     (if length entries = 0 then emptyHash sha else hex_encode (sha (bucket_input entries)))"

definition hashPair :: "(bytes \<Rightarrow> bytes) \<Rightarrow> string \<Rightarrow> string \<Rightarrow> string" where
  "hashPair sha a b = hex_encode (sha (a @ b))"

definition assign_buckets :: "(bytes \<Rightarrow> bytes) \<Rightarrow> MerkleEntry list \<Rightarrow> MerkleEntry list list" where
  "assign_buckets sha entries =
     foldl (\<lambda>bs e. let idx = bucketIndex sha (me_Key e) in bs[idx := bs ! idx @ [e]])
       (replicate numBuckets []) entries"

definition build_nodes :: "(bytes \<Rightarrow> bytes) \<Rightarrow> string list \<Rightarrow> string list" where
  "build_nodes sha buckets =
     (let nodes = foldl (\<lambda>ns i. ns[numBuckets + i := buckets ! i]) (replicate (2 * numBuckets) []) [0..<numBuckets]
      in foldl (\<lambda>ns i. ns[i := hashPair sha (ns ! (2 * i)) (ns ! (2 * i + 1))]) nodes (rev [1..<numBuckets]))"

definition Merkle_Build ::
  "(bytes \<Rightarrow> bytes) \<Rightarrow> (MerkleEntry list \<Rightarrow> MerkleEntry list) \<Rightarrow> MerkleEntry list \<Rightarrow> MerkleTree" where
  "Merkle_Build sha sorter entries =
     (let buckets = map (hashBucket sha) (assign_buckets sha (sorter entries));
          nodes = build_nodes sha buckets
      in \<lparr>tr_buckets = buckets, tr_nodes = nodes, tr_RootHash = nodes ! 1\<rparr>)"

text \<open>
  \<open>diffSubtree\<close>: \<open>None\<close> is a recursion without end (it would need the index 0), \<open>Inl\<close> a panic. The
  guards look at the receiver's nodes only; the other tree comes from the network and may be
  shorter.
\<close>

definition tr_node :: "MerkleTree \<Rightarrow> nat \<Rightarrow> string option" where
  "tr_node t i = (if i < length (tr_nodes t) then Some (tr_nodes t ! i) else None)"

partial_function (option) diffSubtree ::
  "MerkleTree \<Rightarrow> MerkleTree \<Rightarrow> nat \<Rightarrow> nat list \<Rightarrow> (merkle_error + nat list) option" where
  "diffSubtree mt other idx diffs =
     (if numBuckets \<le> idx
      then let bucketIdx = idx - numBuckets
           in if numBuckets \<le> bucketIdx then Some (Inl PanicIndexOutOfRange)
              else if tr_buckets mt ! bucketIdx \<noteq> tr_buckets other ! bucketIdx then Some (Inr (diffs @ [bucketIdx]))
              else Some (Inr diffs)
      else Option.bind
        (if 2 * idx < length (tr_nodes mt)
         then case tr_node other (2 * idx) of
                None \<Rightarrow> Some (Inl PanicIndexOutOfRange)
              | Some h \<Rightarrow> if tr_nodes mt ! (2 * idx) \<noteq> h then diffSubtree mt other (2 * idx) diffs else Some (Inr diffs)
         else Some (Inr diffs))
        (\<lambda>r. case r of
               Inl err \<Rightarrow> Some (Inl err)
             | Inr diffs1 \<Rightarrow>
                 if 2 * idx + 1 < length (tr_nodes mt)
                 then case tr_node other (2 * idx + 1) of
                        None \<Rightarrow> Some (Inl PanicIndexOutOfRange)
                      | Some h \<Rightarrow> if tr_nodes mt ! (2 * idx + 1) \<noteq> h then diffSubtree mt other (2 * idx + 1) diffs1 else Some (Inr diffs1)
                 else Some (Inr diffs1)))"

definition DiffBuckets :: "MerkleTree \<Rightarrow> MerkleTree \<Rightarrow> (merkle_error + nat list) option" where
  "DiffBuckets mt other =
     (if tr_RootHash mt = tr_RootHash other then Some (Inr []) else diffSubtree mt other 1 [])"

definition BucketKeyRange :: "nat \<Rightarrow> string \<times> string" where
  "BucketKeyRange idx =
     (''[bucket:'' @ fmt_0d 4 (int idx) @ '']'', ''[bucket:'' @ fmt_0d 4 (int idx + 1) @ '']'')"

definition BucketHash :: "MerkleTree \<Rightarrow> int \<Rightarrow> string" where
  "BucketHash mt i = (if i < 0 \<or> int numBuckets \<le> i then [] else tr_buckets mt ! nat i)"

section \<open>The heap\<close>

lemma foldl_update_leaves:
  "n \<le> length bs \<Longrightarrow> length ns = 2 * numBuckets \<Longrightarrow> n \<le> numBuckets \<Longrightarrow>
   length (foldl (\<lambda>ns i. ns[numBuckets + i := bs ! i]) ns [0..<n]) = 2 * numBuckets \<and>
   (\<forall>i<n. foldl (\<lambda>ns i. ns[numBuckets + i := bs ! i]) ns [0..<n] ! (numBuckets + i) = bs ! i)"
  by (induction n) (auto simp: nth_list_update less_Suc_eq)

text \<open>The loop that fills the inner nodes from \<open>n - 1\<close> down to 1.\<close>

abbreviation fill_step :: "(bytes \<Rightarrow> bytes) \<Rightarrow> string list \<Rightarrow> nat \<Rightarrow> string list" where
  "fill_step sha \<equiv> \<lambda>ns i. ns[i := hashPair sha (ns ! (2 * i)) (ns ! (2 * i + 1))]"

lemma fill_untouched: "length (foldl (fill_step sha) ns is) = length ns \<and>
    (\<forall>j. j \<notin> set is \<longrightarrow> foldl (fill_step sha) ns is ! j = ns ! j)"
  by (induction "is" arbitrary: ns) auto

lemma fill_inner:
  assumes "length ns = 2 * numBuckets" "n \<le> numBuckets"
  shows "\<forall>i. 1 \<le> i \<longrightarrow> i < n \<longrightarrow> foldl (fill_step sha) ns (rev [1..<n]) ! i =
    hashPair sha (foldl (fill_step sha) ns (rev [1..<n]) ! (2 * i)) (foldl (fill_step sha) ns (rev [1..<n]) ! (2 * i + 1))"
  using assms
proof (induction n arbitrary: ns)
  case (Suc n)
  show ?case
  proof (cases "n = 0")
    case False
    let ?ns = "fill_step sha ns n"
    have r: "rev [1..<Suc n] = n # rev [1..<n]" using False by simp
    have IH: "\<forall>i. 1 \<le> i \<longrightarrow> i < n \<longrightarrow> foldl (fill_step sha) ?ns (rev [1..<n]) ! i =
        hashPair sha (foldl (fill_step sha) ?ns (rev [1..<n]) ! (2 * i)) (foldl (fill_step sha) ?ns (rev [1..<n]) ! (2 * i + 1))"
      using Suc.IH [of ?ns] Suc.prems by simp
    have keep: "j \<ge> n \<Longrightarrow> foldl (fill_step sha) ?ns (rev [1..<n]) ! j = ?ns ! j" for j
      using fill_untouched [of sha ?ns "rev [1..<n]"] by auto
    have n: "n < length ns" using Suc.prems by simp
    have top: "foldl (fill_step sha) ?ns (rev [1..<n]) ! n =
        hashPair sha (foldl (fill_step sha) ?ns (rev [1..<n]) ! (2 * n)) (foldl (fill_step sha) ?ns (rev [1..<n]) ! (2 * n + 1))"
      using keep [of n] keep [of "2 * n"] keep [of "2 * n + 1"] n False by simp
    show ?thesis unfolding r foldl_Cons using IH top by (auto simp: less_Suc_eq)
  qed simp
qed simp

definition heap_tree :: "(bytes \<Rightarrow> bytes) \<Rightarrow> MerkleTree \<Rightarrow> bool" where
  "heap_tree sha t \<longleftrightarrow> length (tr_buckets t) = numBuckets \<and> length (tr_nodes t) = 2 * numBuckets \<and>
     tr_RootHash t = tr_nodes t ! 1 \<and> (\<forall>i<numBuckets. tr_nodes t ! (numBuckets + i) = tr_buckets t ! i) \<and>
     (\<forall>i. 1 \<le> i \<longrightarrow> i < numBuckets \<longrightarrow> tr_nodes t ! i = hashPair sha (tr_nodes t ! (2 * i)) (tr_nodes t ! (2 * i + 1)))"

lemma build_nodes_heap:
  assumes "length bs = numBuckets"
  shows "heap_tree sha \<lparr>tr_buckets = bs, tr_nodes = build_nodes sha bs, tr_RootHash = build_nodes sha bs ! 1\<rparr>"
proof -
  let ?l = "foldl (\<lambda>ns i. ns[numBuckets + i := bs ! i]) (replicate (2 * numBuckets) []) [0..<numBuckets]"
  have l: "length ?l = 2 * numBuckets" "\<forall>i<numBuckets. ?l ! (numBuckets + i) = bs ! i"
    using foldl_update_leaves [of numBuckets bs "replicate (2 * numBuckets) []"] assms by simp_all
  have n: "build_nodes sha bs = foldl (fill_step sha) ?l (rev [1..<numBuckets])" by (simp add: build_nodes_def)
  have "length (build_nodes sha bs) = 2 * numBuckets" "\<forall>j\<ge>numBuckets. build_nodes sha bs ! j = ?l ! j"
    unfolding n using fill_untouched [of sha ?l "rev [1..<numBuckets]"] l(1) by auto
  then show ?thesis
    using l(2) assms fill_inner [OF l(1), of numBuckets sha] unfolding heap_tree_def n [symmetric] by simp
qed

lemma heap_leaf: "heap_tree sha t \<Longrightarrow> i < numBuckets \<Longrightarrow> tr_nodes t ! (numBuckets + i) = tr_buckets t ! i"
  by (simp add: heap_tree_def)

lemma heap_inner: "heap_tree sha t \<Longrightarrow> 1 \<le> i \<Longrightarrow> i < numBuckets \<Longrightarrow>
    tr_nodes t ! i = hashPair sha (tr_nodes t ! (2 * i)) (tr_nodes t ! (2 * i + 1))"
  by (simp add: heap_tree_def)

section \<open>The difference of two trees\<close>

text \<open>No inner node of the two trees hides a difference below it.\<close>

definition no_pair_collision :: "MerkleTree \<Rightarrow> MerkleTree \<Rightarrow> bool" where
  "no_pair_collision s t \<longleftrightarrow> (\<forall>i. 1 \<le> i \<longrightarrow> i < numBuckets \<longrightarrow> tr_nodes s ! i = tr_nodes t ! i \<longrightarrow>
     tr_nodes s ! (2 * i) = tr_nodes t ! (2 * i) \<and> tr_nodes s ! (2 * i + 1) = tr_nodes t ! (2 * i + 1))"

text \<open>The buckets below a node of height \<open>h\<close>, and those of them that differ.\<close>

definition leaves :: "nat \<Rightarrow> nat \<Rightarrow> nat list" where
  "leaves h idx = [idx * 2 ^ h - numBuckets..<(idx + 1) * 2 ^ h - numBuckets]"

definition differing :: "MerkleTree \<Rightarrow> MerkleTree \<Rightarrow> nat list \<Rightarrow> nat list" where
  "differing s t bs = filter (\<lambda>b. tr_buckets s ! b \<noteq> tr_buckets t ! b) bs"

text \<open>A node of height \<open>h\<close> in a tree with ten levels of inner nodes.\<close>

definition at_height :: "nat \<Rightarrow> nat \<Rightarrow> bool" where
  "at_height h idx \<longleftrightarrow> numBuckets \<le> idx * 2 ^ h \<and> (idx + 1) * 2 ^ h \<le> 2 * numBuckets"

lemma upt_split: "i \<le> j \<Longrightarrow> j \<le> k \<Longrightarrow> [i..<k] = [i..<j] @ [j..<k]"
  by (metis le_add_diff_inverse upt_add_eq_append)

lemma at_height_root: "at_height 10 1" "leaves 10 1 = [0..<numBuckets]"
  by (simp_all add: at_height_def leaves_def numBuckets_def)

lemma at_height_0: "at_height 0 idx \<Longrightarrow> numBuckets \<le> idx \<and> idx < 2 * numBuckets \<and> leaves 0 idx = [idx - numBuckets]"
  by (auto simp: at_height_def leaves_def Suc_diff_le)

lemma at_height_Suc:
  assumes "at_height (Suc h) idx"
  shows "1 \<le> idx" "idx < numBuckets" "at_height h (2 * idx)" "at_height h (2 * idx + 1)"
    "leaves (Suc h) idx = leaves h (2 * idx) @ leaves h (2 * idx + 1)"
proof -
  have a: "numBuckets \<le> 2 * idx * 2 ^ h" "(2 * idx + 2) * 2 ^ h \<le> 2 * numBuckets"
    using assms by (simp_all add: at_height_def algebra_simps)
  show "1 \<le> idx" using a(1) by (cases idx) (simp_all add: numBuckets_def)
  have "(2 * idx + 2) * 1 \<le> (2 * idx + 2) * 2 ^ h" by (intro mult_left_mono) simp_all
  then show "idx < numBuckets" using a(2) by simp
  have m: "2 * idx * 2 ^ h \<le> (2 * idx + 1) * 2 ^ h" "(2 * idx + 1) * 2 ^ h \<le> (2 * idx + 2) * 2 ^ h"
    by (simp_all add: algebra_simps)
  show "at_height h (2 * idx)" "at_height h (2 * idx + 1)"
    using a m unfolding at_height_def by (simp_all add: algebra_simps)
  have "[2 * idx * 2 ^ h - numBuckets..<(2 * idx + 2) * 2 ^ h - numBuckets] =
      [2 * idx * 2 ^ h - numBuckets..<(2 * idx + 1) * 2 ^ h - numBuckets] @
      [(2 * idx + 1) * 2 ^ h - numBuckets..<(2 * idx + 2) * 2 ^ h - numBuckets]"
    using m by (intro upt_split diff_le_mono) simp_all
  then show "leaves (Suc h) idx = leaves h (2 * idx) @ leaves h (2 * idx + 1)"
    by (simp add: leaves_def algebra_simps)
qed

lemma equal_below:
  assumes s: "heap_tree sha s" "heap_tree sha' t" and c: "no_pair_collision s t"
  shows "at_height h idx \<Longrightarrow> tr_nodes s ! idx = tr_nodes t ! idx \<Longrightarrow> differing s t (leaves h idx) = []"
proof (induction h arbitrary: idx)
  case 0
  then have "numBuckets \<le> idx" "idx - numBuckets < numBuckets" "leaves 0 idx = [idx - numBuckets]"
    using at_height_0 [of idx] by auto
  then show ?case
    using 0(2) heap_leaf [OF s(1), of "idx - numBuckets"] heap_leaf [OF s(2), of "idx - numBuckets"]
    by (simp add: differing_def)
next
  case (Suc h)
  note b = at_height_Suc [OF Suc.prems(1)]
  have "tr_nodes s ! (2 * idx) = tr_nodes t ! (2 * idx)" "tr_nodes s ! (2 * idx + 1) = tr_nodes t ! (2 * idx + 1)"
    using c b(1,2) Suc.prems(2) unfolding no_pair_collision_def by blast+
  then show ?case using Suc.IH [OF b(3)] Suc.IH [OF b(4)] b(5) by (simp add: differing_def)
qed

lemma diffSubtree_exact:
  assumes s: "heap_tree sha s" "heap_tree sha' t" and c: "no_pair_collision s t"
  shows "at_height h idx \<Longrightarrow> diffSubtree s t idx diffs = Some (Inr (diffs @ differing s t (leaves h idx)))"
proof (induction h arbitrary: idx diffs)
  case 0
  then have "numBuckets \<le> idx" "idx - numBuckets < numBuckets" "leaves 0 idx = [idx - numBuckets]"
    using at_height_0 [of idx] by auto
  then show ?case by (subst diffSubtree.simps) (simp add: differing_def Let_def)
next
  case (Suc h)
  note b = at_height_Suc [OF Suc.prems]
  have len: "2 * idx < length (tr_nodes s)" "2 * idx + 1 < length (tr_nodes s)"
      "2 * idx < length (tr_nodes t)" "2 * idx + 1 < length (tr_nodes t)"
    using s b(2) by (simp_all add: heap_tree_def)
  have "(if tr_nodes s ! (2 * idx) \<noteq> tr_nodes t ! (2 * idx) then diffSubtree s t (2 * idx) diffs else Some (Inr diffs)) =
      Some (Inr (diffs @ differing s t (leaves h (2 * idx))))"
    using Suc.IH [OF b(3)] equal_below [OF s c b(3)] by simp
  moreover have "(if tr_nodes s ! (2 * idx + 1) \<noteq> tr_nodes t ! (2 * idx + 1) then diffSubtree s t (2 * idx + 1) ds else Some (Inr ds)) =
      Some (Inr (ds @ differing s t (leaves h (2 * idx + 1))))" for ds
    using Suc.IH [OF b(4)] equal_below [OF s c b(4)] by simp
  ultimately show ?case
    using len b(2,5) by (subst diffSubtree.simps) (simp add: tr_node_def differing_def)
qed

text \<open>Without that assumption the search may stop early, but what it reports does differ.\<close>

lemma diffSubtree_sound:
  assumes s: "heap_tree sha s" "heap_tree sha' t"
  shows "at_height h idx \<Longrightarrow> \<exists>ds. diffSubtree s t idx diffs = Some (Inr (diffs @ ds)) \<and> set ds \<subseteq> set (differing s t (leaves h idx))"
proof (induction h arbitrary: idx diffs)
  case 0
  then have "numBuckets \<le> idx" "idx - numBuckets < numBuckets" "leaves 0 idx = [idx - numBuckets]"
    using at_height_0 [of idx] by auto
  then show ?case by (subst diffSubtree.simps) (simp add: differing_def Let_def)
next
  case (Suc h)
  note b = at_height_Suc [OF Suc.prems]
  have len: "2 * idx < length (tr_nodes s)" "2 * idx + 1 < length (tr_nodes s)"
      "2 * idx < length (tr_nodes t)" "2 * idx + 1 < length (tr_nodes t)"
    using s b(2) by (simp_all add: heap_tree_def)
  obtain d1 where d1: "(if tr_nodes s ! (2 * idx) \<noteq> tr_nodes t ! (2 * idx) then diffSubtree s t (2 * idx) diffs else Some (Inr diffs)) =
      Some (Inr (diffs @ d1))" "set d1 \<subseteq> set (differing s t (leaves h (2 * idx)))"
    using Suc.IH [OF b(3), of diffs] by (cases "tr_nodes s ! (2 * idx) \<noteq> tr_nodes t ! (2 * idx)") auto
  obtain d2 where d2: "(if tr_nodes s ! (2 * idx + 1) \<noteq> tr_nodes t ! (2 * idx + 1) then diffSubtree s t (2 * idx + 1) (diffs @ d1)
        else Some (Inr (diffs @ d1))) = Some (Inr (diffs @ d1 @ d2))" "set d2 \<subseteq> set (differing s t (leaves h (2 * idx + 1)))"
    using Suc.IH [OF b(4), of "diffs @ d1"] by (cases "tr_nodes s ! (2 * idx + 1) \<noteq> tr_nodes t ! (2 * idx + 1)") auto
  have "diffSubtree s t idx diffs = Some (Inr (diffs @ d1 @ d2))"
    using len b(2) d1(1) d2(1) by (subst diffSubtree.simps) (simp add: tr_node_def)
  then show ?case using d1(2) d2(2) b(5) by (intro exI [of _ "d1 @ d2"]) (auto simp: differing_def)
qed

section \<open>Building\<close>

text \<open>What is known of the sort: a permutation, ordered by key.\<close>

locale entry_sorter =
  fixes sorter :: "MerkleEntry list \<Rightarrow> MerkleEntry list"
  assumes sorter_mset: "mset (sorter es) = mset es"
    and sorter_sorted: "sorted (map me_Key (sorter es))"
begin

lemma sorter_unique:
  assumes "mset es = mset es'" "distinct (map me_Key es)"
  shows "sorter es = sorter es'"
proof -
  have m: "mset (sorter es) = mset (sorter es')" using assms(1) by (simp add: sorter_mset)
  have "mset (map me_Key (sorter es)) = mset (map me_Key es)" by (simp add: sorter_mset)
  then have d: "distinct (map me_Key (sorter es))" using assms(2) by (metis mset_eq_imp_distinct_iff)
  then have inj: "inj_on me_Key (set (sorter es))" by (simp add: distinct_map)
  show ?thesis
    using map_sorted_distinct_set_unique [of me_Key "sorter es" "sorter es'"] m d inj sorter_sorted [of es] sorter_sorted [of es']
    by (metis Un_absorb mset_eq_imp_distinct_iff mset_eq_setD mset_map)
qed

lemma filter_sorter_unique:
  assumes "mset (filter P es) = mset (filter P es')" "distinct (map me_Key (filter P es))"
  shows "filter P (sorter es) = filter P (sorter es')"
proof -
  have m: "mset (filter P (sorter es)) = mset (filter P es)" "mset (filter P (sorter es')) = mset (filter P es')"
    by (simp_all add: sorter_mset)
  have so: "sorted (map me_Key (filter P (sorter es)))" "sorted (map me_Key (filter P (sorter es')))"
    by (simp_all add: sorted_filter sorter_sorted)
  have "mset (map me_Key (filter P (sorter es))) = mset (map me_Key (filter P es))" by (simp only: mset_map m)
  then have d: "distinct (map me_Key (filter P (sorter es)))" using assms(2) by (metis mset_eq_imp_distinct_iff)
  have e: "mset (filter P (sorter es)) = mset (filter P (sorter es'))" using m assms(1) by simp
  then have d': "distinct (map me_Key (filter P (sorter es')))"
    using d by (metis mset_eq_imp_distinct_iff mset_map)
  show ?thesis
    using map_sorted_distinct_set_unique [of me_Key "filter P (sorter es)" "filter P (sorter es')"] so d d'
      mset_eq_setD [OF e] by (simp add: distinct_map)
qed

lemma filter_sorter_known:
  assumes "mset (filter P es) = mset xs" "sorted (map me_Key xs)" "distinct (map me_Key xs)"
  shows "filter P (sorter es) = xs"
proof -
  have m: "mset (filter P (sorter es)) = mset xs" using assms(1) by (simp add: sorter_mset)
  then have d: "distinct (map me_Key (filter P (sorter es)))"
    using assms(3) by (metis mset_eq_imp_distinct_iff mset_map)
  have so: "sorted (map me_Key (filter P (sorter es)))" by (simp add: sorted_filter sorter_sorted)
  show ?thesis
    using map_sorted_distinct_set_unique [of me_Key "filter P (sorter es)" xs] so d assms(2,3) mset_eq_setD [OF m]
    by (simp add: distinct_map)
qed

end

interpretation stable: entry_sorter "sort_key me_Key"
  by unfold_locales simp_all

lemma bucketIndex_less: "bucketIndex sha k < numBuckets"
  by (simp add: bucketIndex_def numBuckets_def)

lemma assign_loop:
  "length bs = numBuckets \<Longrightarrow>
   length (foldl (\<lambda>bs e. let idx = bucketIndex sha (me_Key e) in bs[idx := bs ! idx @ [e]]) bs es) = numBuckets \<and>
   (\<forall>i<numBuckets. foldl (\<lambda>bs e. let idx = bucketIndex sha (me_Key e) in bs[idx := bs ! idx @ [e]]) bs es ! i =
      bs ! i @ filter (\<lambda>e. bucketIndex sha (me_Key e) = i) es)"
  by (induction es arbitrary: bs) (auto simp: Let_def nth_list_update bucketIndex_less)

lemma assign_buckets_nth:
  "length (assign_buckets sha es) = numBuckets"
  "i < numBuckets \<Longrightarrow> assign_buckets sha es ! i = filter (\<lambda>e. bucketIndex sha (me_Key e) = i) es"
  using assign_loop [of "replicate numBuckets []" sha es] by (simp_all add: assign_buckets_def)

lemma Build_heap: "heap_tree sha (Merkle_Build sha sorter es)"
  using build_nodes_heap [of "map (hashBucket sha) (assign_buckets sha (sorter es))" sha]
  by (simp add: Merkle_Build_def Let_def assign_buckets_nth)

lemma Build_bucket:
  "i < numBuckets \<Longrightarrow> tr_buckets (Merkle_Build sha sorter es) ! i =
     hashBucket sha (filter (\<lambda>e. bucketIndex sha (me_Key e) = i) (sorter es))"
  by (simp add: Merkle_Build_def Let_def assign_buckets_nth)

lemma DiffBuckets_exact:
  assumes "heap_tree sha s" "heap_tree sha' t" "no_pair_collision s t"
  shows "DiffBuckets s t = Some (Inr (differing s t [0..<numBuckets]))"
proof -
  have r: "tr_RootHash s = tr_nodes s ! 1" "tr_RootHash t = tr_nodes t ! 1"
    using assms(1,2) by (simp_all add: heap_tree_def)
  show ?thesis
    using equal_below [OF assms at_height_root(1)] diffSubtree_exact [OF assms at_height_root(1), of "[]"] at_height_root(2)
    by (simp add: DiffBuckets_def r)
qed

section \<open>Properties\<close>

text \<open>
  C13. The comparison of two trees always returns, without a panic and without reporting a bucket
  that does not differ; when no inner hash collides, it reports exactly the buckets whose hashes
  differ, in ascending order.
\<close>

theorem diff_buckets_exact:
  assumes "s = Merkle_Build sha sorter es" "t = Merkle_Build sha sorter' es'"
  shows "\<exists>ds. DiffBuckets s t = Some (Inr ds) \<and>
    set ds \<subseteq> {b. b < 1024 \<and> BucketHash s (int b) \<noteq> BucketHash t (int b)} \<and>
    (no_pair_collision s t \<longrightarrow> ds = filter (\<lambda>b. BucketHash s (int b) \<noteq> BucketHash t (int b)) [0..<1024])"
proof -
  have h: "heap_tree sha s" "heap_tree sha t" using assms by (simp_all add: Build_heap)
  have d: "differing s t [0..<numBuckets] = filter (\<lambda>b. BucketHash s (int b) \<noteq> BucketHash t (int b)) [0..<1024]"
    by (auto simp: differing_def BucketHash_def numBuckets_def intro!: filter_cong)
  obtain ds where ds: "DiffBuckets s t = Some (Inr ds)" "set ds \<subseteq> set (differing s t [0..<numBuckets])"
    using diffSubtree_sound [OF h at_height_root(1), of "[]"] at_height_root(2)
    by (cases "tr_RootHash s = tr_RootHash t") (auto simp: DiffBuckets_def)
  have "no_pair_collision s t \<longrightarrow> ds = filter (\<lambda>b. BucketHash s (int b) \<noteq> BucketHash t (int b)) [0..<1024]"
    using DiffBuckets_exact [OF h] ds(1) d by simp
  with ds show ?thesis unfolding d by (auto simp del: upt_rec_numeral)
qed

text \<open>A digest that only tells whether a marked byte occurs; trees over it have no collisions.\<close>

definition mark_sha :: "bytes \<Rightarrow> bytes" where
  "mark_sha bs = (if CHR ''x'' \<in> set bs \<or> CHR ''1'' \<in> set bs then ''1'' else ''0'')"

definition mark_tree :: "MerkleEntry list \<Rightarrow> MerkleTree" where
  "mark_tree es = Merkle_Build mark_sha (sort_key me_Key) es"

lemma mark_hex: "hex_encode ''1'' = ''31''" "hex_encode ''0'' = ''30''"
  by code_simp+

lemma mark_values: "hashPair mark_sha a b \<in> {''30'', ''31''}" "hashBucket mark_sha es \<in> {''30'', ''31''}"
  by (simp_all add: hashPair_def hashBucket_def emptyHash_def mark_sha_def mark_hex)

lemma mark_nodes:
  assumes "heap_tree mark_sha t" "\<forall>b<numBuckets. tr_buckets t ! b \<in> {''30'', ''31''}" "1 \<le> j" "j < 2 * numBuckets"
  shows "tr_nodes t ! j \<in> {''30'', ''31''}"
proof (cases "j < numBuckets")
  case True
  then show ?thesis using heap_inner [OF assms(1,3)] mark_values(1) by metis
next
  case False
  then have "tr_nodes t ! j = tr_buckets t ! (j - numBuckets)"
    using heap_leaf [OF assms(1), of "j - numBuckets"] assms(4) by simp
  with False assms(2,4) show ?thesis by simp
qed

lemma mark_pair: "a \<in> {''30'', ''31''} \<Longrightarrow> b \<in> {''30'', ''31''} \<Longrightarrow>
    hashPair mark_sha a b = (if a = ''30'' \<and> b = ''30'' then ''30'' else ''31'')"
  by (auto simp: hashPair_def mark_sha_def mark_hex)

lemma mark_zero:
  assumes "heap_tree mark_sha t" "\<forall>b<numBuckets. tr_buckets t ! b = ''30''"
  shows "1 \<le> j \<Longrightarrow> j < 2 * numBuckets \<Longrightarrow> tr_nodes t ! j = ''30''"
proof (induction "2 * numBuckets - j" arbitrary: j rule: less_induct)
  case less
  show ?case
  proof (cases "j < numBuckets")
    case True
    then have "tr_nodes t ! (2 * j) = ''30''" "tr_nodes t ! (2 * j + 1) = ''30''"
      using less.prems by (intro less.hyps; simp)+
    then show ?thesis using heap_inner [OF assms(1) less.prems(1) True] mark_pair by simp
  next
    case False
    then show ?thesis using heap_leaf [OF assms(1), of "j - numBuckets"] less.prems(2) assms(2) by simp
  qed
qed

lemma mark_no_collision:
  assumes "heap_tree mark_sha s" "\<forall>b<numBuckets. tr_buckets s ! b \<in> {''30'', ''31''}"
    and "heap_tree mark_sha t" "\<forall>b<numBuckets. tr_buckets t ! b = ''30''"
  shows "no_pair_collision s t"
  unfolding no_pair_collision_def
proof (intro allI impI)
  fix i assume i: "1 \<le> i" "i < numBuckets" "tr_nodes s ! i = tr_nodes t ! i"
  have c: "1 \<le> 2 * i" "2 * i < 2 * numBuckets" "1 \<le> 2 * i + 1" "2 * i + 1 < 2 * numBuckets" using i by simp_all
  have "hashPair mark_sha (tr_nodes s ! (2 * i)) (tr_nodes s ! (2 * i + 1)) = ''30''"
    using i heap_inner [OF assms(1) i(1,2)] mark_zero [OF assms(3,4), of i] by simp
  then have "tr_nodes s ! (2 * i) = ''30'' \<and> tr_nodes s ! (2 * i + 1) = ''30''"
    using mark_pair [OF mark_nodes [OF assms(1,2) c(1,2)] mark_nodes [OF assms(1,2) c(3,4)]] by (auto split: if_splits)
  then show "tr_nodes s ! (2 * i) = tr_nodes t ! (2 * i) \<and> tr_nodes s ! (2 * i + 1) = tr_nodes t ! (2 * i + 1)"
    using mark_zero [OF assms(3,4)] c by simp
qed

lemma mark_tree_facts:
  "heap_tree mark_sha (mark_tree es)" "b < numBuckets \<Longrightarrow> tr_buckets (mark_tree es) ! b \<in> {''30'', ''31''}"
  "b < numBuckets \<Longrightarrow> tr_buckets (mark_tree []) ! b = ''30''"
  "tr_buckets (mark_tree [\<lparr>me_Key = ''x'', me_Value = v\<rparr>]) ! 49 = ''31''"
proof -
  show "heap_tree mark_sha (mark_tree es)" by (simp add: mark_tree_def Build_heap)
  show "b < numBuckets \<Longrightarrow> tr_buckets (mark_tree es) ! b \<in> {''30'', ''31''}"
    using mark_values(2) by (simp only: mark_tree_def Build_bucket)
  show "b < numBuckets \<Longrightarrow> tr_buckets (mark_tree []) ! b = ''30''"
    by (simp add: mark_tree_def Build_bucket hashBucket_def emptyHash_def mark_sha_def mark_hex)
  have "bucketIndex mark_sha ''x'' = 49" by code_simp
  then show "tr_buckets (mark_tree [\<lparr>me_Key = ''x'', me_Value = v\<rparr>]) ! 49 = ''31''"
    by (simp add: mark_tree_def Build_bucket numBuckets_def hashBucket_def bucket_input_def mark_sha_def mark_hex)
qed

theorem diff_buckets_exact_witness:
  "\<exists>ds. DiffBuckets (mark_tree [\<lparr>me_Key = ''x'', me_Value = ''v''\<rparr>]) (mark_tree []) = Some (Inr ds) \<and> 49 \<in> set ds"
proof -
  let ?s = "mark_tree [\<lparr>me_Key = ''x'', me_Value = ''v''\<rparr>]" and ?t = "mark_tree []"
  have c: "no_pair_collision ?s ?t" using mark_tree_facts by (intro mark_no_collision) blast+
  have "BucketHash ?s (int 49) \<noteq> BucketHash ?t (int 49)"
    using mark_tree_facts(3) [of 49] mark_tree_facts(4) [of "''v''"] by (simp add: BucketHash_def numBuckets_def)
  then have "49 \<in> set (filter (\<lambda>b. BucketHash ?s (int b) \<noteq> BucketHash ?t (int b)) [0..<1024])"
    by (simp del: upt_rec_numeral)
  moreover obtain ds where "DiffBuckets ?s ?t = Some (Inr ds)"
      "no_pair_collision ?s ?t \<longrightarrow> ds = filter (\<lambda>b. BucketHash ?s (int b) \<noteq> BucketHash ?t (int b)) [0..<1024]"
    using diff_buckets_exact [OF mark_tree_def [of "[\<lparr>me_Key = ''x'', me_Value = ''v''\<rparr>]"] mark_tree_def [of "[]"]] by blast
  ultimately show ?thesis using c by blast
qed

text \<open>
  The tree does not depend on the order in which the entries arrive, nor on how the unstable
  sort orders ties, when the keys are distinct.
\<close>

theorem build_order_independent:
  assumes "entry_sorter sorter" "mset es = mset es'" "distinct (map me_Key es)"
  shows "Merkle_Build sha sorter es = Merkle_Build sha sorter es'"
  using entry_sorter.sorter_unique [OF assms] by (simp add: Merkle_Build_def)

theorem build_order_independent_witness:
  "Merkle_Build mark_sha (sort_key me_Key) [\<lparr>me_Key = ''b'', me_Value = ''2''\<rparr>, \<lparr>me_Key = ''a'', me_Value = ''1''\<rparr>] =
   Merkle_Build mark_sha (sort_key me_Key) [\<lparr>me_Key = ''a'', me_Value = ''1''\<rparr>, \<lparr>me_Key = ''b'', me_Value = ''2''\<rparr>]"
  by (rule build_order_independent [OF stable.entry_sorter_axioms]) simp_all

text \<open>
  C40. Equal roots do not mean equal contents, although the file's opening comment says so and
  whatever the digest: keys and values are only terminated by zero bytes. Take any replica that
  holds two keys alone in a bucket, and one that holds instead only the first key, with a value
  that spells the rest of the bucket out. The two build the same tree, and the comparison finds
  nothing to repair.
\<close>

theorem bucket_hash_ambiguous:
  assumes "entry_sorter sorter" "bucketIndex sha k' = bucketIndex sha k" "k < k'" "distinct (map me_Key rest)"
    and "\<forall>e\<in>set rest. bucketIndex sha (me_Key e) \<noteq> bucketIndex sha k"
    and "s = Merkle_Build sha sorter (\<lparr>me_Key = k, me_Value = v\<rparr> # \<lparr>me_Key = k', me_Value = v'\<rparr> # rest)"
    and "t = Merkle_Build sha sorter (\<lparr>me_Key = k, me_Value = v @ [CHR 0x00] @ k' @ [CHR 0x00] @ v'\<rparr> # rest)"
  shows "tr_RootHash s = tr_RootHash t \<and> s = t \<and> DiffBuckets s t = Some (Inr [])"
proof -
  let ?x = "\<lparr>me_Key = k, me_Value = v\<rparr>" and ?y = "\<lparr>me_Key = k', me_Value = v'\<rparr>"
    and ?z = "\<lparr>me_Key = k, me_Value = v @ [CHR 0x00] @ k' @ [CHR 0x00] @ v'\<rparr>"
  let ?P = "\<lambda>i e. bucketIndex sha (me_Key e) = i"
  have none: "filter (?P (bucketIndex sha k)) rest = []" using assms(5) by (simp add: filter_empty_conv)
  have own: "filter (?P (bucketIndex sha k)) (sorter (?x # ?y # rest)) = [?x, ?y]"
    "filter (?P (bucketIndex sha k)) (sorter (?z # rest)) = [?z]"
    using assms(2,3) none by (intro entry_sorter.filter_sorter_known [OF assms(1)]; simp add: add_mset_commute)+
  have other: "filter (?P i) (sorter (?x # ?y # rest)) = filter (?P i) (sorter (?z # rest))"
    if "i \<noteq> bucketIndex sha k" for i
    using that assms(2,4) by (intro entry_sorter.filter_sorter_unique [OF assms(1)]) (auto simp: distinct_map_filter)
  have "hashBucket sha [?x, ?y] = hashBucket sha [?z]" by (simp add: hashBucket_def bucket_input_def)
  then have same: "hashBucket sha (filter (?P i) (sorter (?x # ?y # rest))) = hashBucket sha (filter (?P i) (sorter (?z # rest)))" for i
    by (cases "i = bucketIndex sha k") (simp_all only: own other not_False_eq_True)
  have "map (hashBucket sha) (assign_buckets sha (sorter (?x # ?y # rest))) =
      map (hashBucket sha) (assign_buckets sha (sorter (?z # rest)))"
    by (rule nth_equalityI) (simp_all only: length_map assign_buckets_nth nth_map same)
  then have "s = t" by (simp add: assms(6,7) Merkle_Build_def)
  then show ?thesis by (simp add: DiffBuckets_def)
qed

theorem bucket_hash_ambiguous_witness:
  "DiffBuckets (mark_tree [\<lparr>me_Key = ''a'', me_Value = ''1''\<rparr>, \<lparr>me_Key = ''b'', me_Value = ''2''\<rparr>])
     (mark_tree [\<lparr>me_Key = ''a'', me_Value = ''1'' @ [CHR 0x00] @ ''b'' @ [CHR 0x00] @ ''2''\<rparr>]) = Some (Inr [])"
proof -
  have k: "bucketIndex mark_sha ''b'' = bucketIndex mark_sha ''a''" "''a'' < ''b''" by code_simp+
  have d: "distinct (map me_Key [])" "\<forall>e\<in>set []. bucketIndex mark_sha (me_Key e) \<noteq> bucketIndex mark_sha ''a''" by simp_all
  show ?thesis
    unfolding mark_tree_def
    using bucket_hash_ambiguous [OF stable.entry_sorter_axioms k d refl refl, of "''1''" "''2''"] by (elim conjE)
qed

section \<open>Short trees\<close>

text \<open>The guards of the search check the index against the local tree only: another root and fewer
  than three nodes in the other tree make it index past the end.\<close>

lemma DiffBuckets_short:
  assumes "s = Merkle_Build sha sorter es" "tr_RootHash t \<noteq> tr_RootHash s" "length (tr_nodes t) \<le> 2"
  shows "DiffBuckets s t = Some (Inl PanicIndexOutOfRange)"
proof -
  have "heap_tree sha s" by (simp add: assms(1) Build_heap)
  then have "2 < length (tr_nodes s)" by (simp add: heap_tree_def numBuckets_def)
  moreover have "tr_node t 2 = None" using assms(3) by (simp add: tr_node_def)
  ultimately have "diffSubtree s t 1 [] = Some (Inl PanicIndexOutOfRange)"
    by (subst diffSubtree.simps) (simp add: numBuckets_def)
  then show ?thesis using assms(2) by (simp add: DiffBuckets_def)
qed

text \<open>A root is never empty.\<close>

lemma Build_root:
  assumes "\<And>x. length (sha x) = n"
  shows "length (tr_RootHash (Merkle_Build sha sorter es)) = 2 * n"
proof -
  let ?t = "Merkle_Build sha sorter es"
  have "tr_RootHash ?t = tr_nodes ?t ! 1" by (simp add: Merkle_Build_def Let_def)
  also have "\<dots> = hashPair sha (tr_nodes ?t ! 2) (tr_nodes ?t ! 3)"
    using heap_inner [OF Build_heap, of 1 sha sorter es] by (simp add: numBuckets_def eval_nat_numeral)
  finally show ?thesis by (simp add: hashPair_def length_hex_encode assms)
qed

end
