(* ===== verification/KV_Handlers.thy ===== *)
theory KV_Handlers
  imports KV_Repair KV_Session KV_Merkle
begin

text \<open>
  \<open>api/http/handlers.go\<close> and \<open>api/http/middleware.go\<close>: the REST API of a node. A handler takes
  the decoded request and what the world answers while it runs (clocks, random bytes, the order in
  which replicas finish, whether the request's context ends early), and gives the response and the
  new state. Routing is done by the router; the path variable is a field of the request. The texts
  of errors are an argument.
\<close>

section \<open>Requests and responses\<close>

text \<open>\<open>hr_body\<close>: the document the body starts with; \<open>hr_query\<close> and \<open>hr_header\<close> give the empty string for
  what is absent.\<close>

record api_request =
  hr_method :: http_method
  hr_key :: string
  hr_query :: "string \<Rightarrow> string"
  hr_header :: "string \<Rightarrow> string"
  hr_body :: "json option"

record api_response =
  rs_status :: int
  rs_headers :: "(string \<times> string) list"
  rs_body :: "json option"

text \<open>\<open>APIResponse\<close>: both members are omitted when empty.\<close>

definition APIResponse :: "json option \<Rightarrow> string \<Rightarrow> json" where
  "APIResponse data error =
     JObj ((case data of None \<Rightarrow> [] | Some d \<Rightarrow> [(''data'', d)]) @ (if error = [] then [] else [(''error'', jstring error)]))"

definition writeJSON :: "(string \<times> string) list \<Rightarrow> int \<Rightarrow> json \<Rightarrow> api_response" where
  "writeJSON headers statusCode data =
     \<lparr>rs_status = statusCode, rs_headers = headers @ [(''Content-Type'', ''application/json'')],
      rs_body = Some (APIResponse (Some data) [])\<rparr>"

definition writeError :: "int \<Rightarrow> string \<Rightarrow> api_response" where
  "writeError statusCode msg =
     \<lparr>rs_status = statusCode, rs_headers = [(''Content-Type'', ''application/json'')],
      rs_body = Some (APIResponse None msg)\<rparr>"

section \<open>Handlers\<close>

record 't Handlers =
  hd_coordinator :: "'t Coordinator"
  hd_sessions :: SessionManager
  hd_merkleBuilder :: "('t StorageEngine \<Rightarrow> MerkleTree) option"
  hd_nodeID :: string

definition NewHandlers ::
  "'t Coordinator \<Rightarrow> SessionManager \<Rightarrow> ('t StorageEngine \<Rightarrow> MerkleTree) option \<Rightarrow> string \<Rightarrow> 't Handlers" where
  "NewHandlers c sm mb nid = \<lparr>hd_coordinator = c, hd_sessions = sm, hd_merkleBuilder = mb, hd_nodeID = nid\<rparr>"

text \<open>What the world answers: the clock when the session is looked up, random bytes, the order of the
  replicas, whether the context ends before the replicas are called, the clock after the
  coordinator returned and the clock of the tracking call.\<close>

record call_env =
  ce_now :: int
  ce_random :: bytes
  ce_sched :: "Node list \<Rightarrow> Node list"
  ce_cancelled :: bool
  ce_after :: int
  ce_track_now :: int

definition consistencyLevel :: "api_request \<Rightarrow> ConsistencyLevel" where
  "consistencyLevel r =
     (if hr_query r ''consistency'' = ''one'' then One
      else if hr_query r ''consistency'' = ''all'' then All
      else Quorum)"

definition sessionFromRequest :: "call_env \<Rightarrow> api_request \<Rightarrow> SessionManager \<Rightarrow> (Session \<times> string) \<times> SessionManager" where
  "sessionFromRequest ce r sm =
     (case GetOrCreate (ce_now ce) (ce_random ce) (hr_header r ''X-Session-ID'') sm of
        (s, sm1) \<Rightarrow> ((s, ss_ID s), sm1))"

text \<open>\<open>errors.Is\<close>: the coordinator wraps only its own error, the last error of a replica is part of the
  text.\<close>

definition errors_Is :: "coord_error \<Rightarrow> kv_error \<Rightarrow> bool" where
  "errors_Is err target \<longleftrightarrow> err = ErrLocal target"

definition kv_field :: "string \<Rightarrow> json \<Rightarrow> string \<times> string \<Rightarrow> (string \<times> string) option" where
  "kv_field n j x =
     (if names ''key'' n then map_option (\<lambda>k. (k, snd x)) (decode_string j (fst x))
      else if names ''value'' n then map_option (\<lambda>v. (fst x, v)) (decode_string j (snd x))
      else Some x)"

definition decode_kv :: "json \<Rightarrow> (string \<times> string) option" where
  "decode_kv j = decode_struct kv_field j ([], [])"

definition HandlePut ::
  "'t world \<Rightarrow> (coord_error \<Rightarrow> string) \<Rightarrow> call_env \<Rightarrow> api_request \<Rightarrow> 't Handlers \<Rightarrow> (api_response \<times> 't Handlers) option" where
  "HandlePut w errtext ce r h =
     (case Option.bind (hr_body r) decode_kv of
        None \<Rightarrow> Some (writeError 400 ''invalid request body'', h)
      | Some (k, v) \<Rightarrow>
          if k = [] then Some (writeError 400 ''key is required'', h)
          else case sessionFromRequest ce r (hd_sessions h) of
            ((session, sessionID), sm) \<Rightarrow>
              (case Coordinator_Put w (ce_sched ce) (ce_cancelled ce) k v (consistencyLevel r) (hd_coordinator h) of
                 None \<Rightarrow> None
               | Some (Some err, c) \<Rightarrow>
                   Some (writeError (if errors_Is err ErrEmptyKey then 400 else 500) (errtext err),
                         h\<lparr>hd_coordinator := c, hd_sessions := sm\<rparr>)
               | Some (None, c) \<Rightarrow>
                   (let ts = ce_after ce
                    in Some (writeJSON [(''X-Session-ID'', sessionID)] 201
                               (JObj [(''key'', jstring k), (''status'', JStr ''ok''), (''timestamp'', JNum ts)]),
                             h\<lparr>hd_coordinator := c, hd_sessions := TrackWrite (ce_track_now ce) sessionID ts sm\<rparr>))))"

text \<open>\<open>HandleGet\<close>: the third result is the read repair that goes on in the background.\<close>

definition HandleGet ::
  "'t world \<Rightarrow> (coord_error \<Rightarrow> string) \<Rightarrow> call_env \<Rightarrow> api_request \<Rightarrow> 't Handlers \<Rightarrow>
   (api_response \<times> repair option \<times> 't Handlers) option" where
  "HandleGet w errtext ce r h =
     (let k = hr_key r
      in case sessionFromRequest ce r (hd_sessions h) of
           ((session, sessionID), sm) \<Rightarrow>
             (case Coordinator_Get w (ce_sched ce) (ce_cancelled ce) k (consistencyLevel r) (hd_coordinator h) of
                None \<Rightarrow> None
              | Some (Inl err, rep, c) \<Rightarrow>
                  Some (if errors_Is err ErrKeyNotFound then writeError 404 ''key not found'' else writeError 500 (errtext err),
                        rep, h\<lparr>hd_coordinator := c, hd_sessions := sm\<rparr>)
              | Some (Inr (d, ts), rep, c) \<Rightarrow>
                  (let ryw = CheckReadYourWrites (Some session) ts;
                       mono = CheckMonotonicRead (Some session) ts
                   in Some (writeJSON [(''X-Session-ID'', sessionID)] 200
                              (JObj [(''key'', jstring k), (''monotonic'', JBool mono), (''read_your_write'', JBool ryw),
                                     (''timestamp'', JNum ts), (''value'', jstring d)]),
                            rep, h\<lparr>hd_coordinator := c, hd_sessions := TrackRead (ce_track_now ce) sessionID ts sm\<rparr>))))"

definition HandleDelete ::
  "'t world \<Rightarrow> (coord_error \<Rightarrow> string) \<Rightarrow> call_env \<Rightarrow> api_request \<Rightarrow> 't Handlers \<Rightarrow> (api_response \<times> 't Handlers) option" where
  "HandleDelete w errtext ce r h =
     (let k = hr_key r
      in case Coordinator_Delete w (ce_sched ce) (ce_cancelled ce) k (consistencyLevel r) (hd_coordinator h) of
           None \<Rightarrow> None
         | Some (Some err, c) \<Rightarrow>
             Some (writeError (if errors_Is err ErrEmptyKey then 400 else 500) (errtext err), h\<lparr>hd_coordinator := c\<rparr>)
         | Some (None, c) \<Rightarrow>
             Some (writeJSON [] 200 (JObj [(''key'', jstring k), (''status'', JStr ''deleted'')]), h\<lparr>hd_coordinator := c\<rparr>))"

definition scan_entry :: "KVValue \<Rightarrow> json" where
  "scan_entry v = JObj [(''timestamp'', JNum (v_Timestamp v)), (''value'', jstring (v_Data v))]"

definition HandleScan :: "'t world \<Rightarrow> (coord_error \<Rightarrow> string) \<Rightarrow> api_request \<Rightarrow> 't Handlers \<Rightarrow> api_response" where
  "HandleScan w errtext r h =
     (let prefix = hr_query r ''prefix'';
          last = prefix @ [CHR 0xFF]
      in case Engine_Scan (wo_bt w) prefix last (co_local (hd_coordinator h)) of
           Inl err \<Rightarrow> writeError 500 (errtext (ErrLocal err))
         | Inr vals \<Rightarrow>
             (let results = foldl (\<lambda>rs v. rs @ [scan_entry v]) [] vals
              in writeJSON [] 200 (JObj [(''count'', JNum (int (length results))), (''entries'', JArr results)])))"

text \<open>The members as the membership library lists them: name, address, state (0 is alive).\<close>

record ml_member =
  mb_Name :: string
  mb_Addr :: string
  mb_State :: int

definition member_info :: "string \<Rightarrow> string \<Rightarrow> string \<Rightarrow> json" where
  "member_info nid addr st = JObj [(''id'', jstring nid), (''address'', jstring addr), (''status'', JStr st)]"

definition HandleHealth :: "ml_member list option \<Rightarrow> int \<Rightarrow> 't Handlers \<Rightarrow> api_response" where
  "HandleHealth cluster uptime h =
     (let members = (case cluster of
                       None \<Rightarrow> []
                     | Some ms \<Rightarrow> foldl (\<lambda>out n. out @ [member_info (mb_Name n) (mb_Addr n)
                                     (if mb_State n \<noteq> 0 then ''suspected'' else ''healthy'')]) [] ms);
          members1 = (if members = [] then [member_info (hd_nodeID h) ''localhost'' ''healthy''] else members)
      in writeJSON [] 200
           (JObj [(''members'', JArr members1), (''node_id'', jstring (hd_nodeID h)), (''status'', JStr ''ok''),
                  (''uptime_seconds'', JNum uptime)]))"

definition HandleMerkle :: "'t Handlers \<Rightarrow> api_response" where
  "HandleMerkle h =
     (case hd_merkleBuilder h of
        None \<Rightarrow> writeError 503 ''merkle not configured''
      | Some build \<Rightarrow>
          (let tree = build (co_local (hd_coordinator h));
               buckets = map (\<lambda>i. BucketHash tree (int i)) [0..<numBuckets]
           in writeJSON [] 200
                (JObj [(''buckets'', JArr (map jstring buckets)), (''nodes'', JArr (map jstring (tr_nodes tree))),
                       (''root_hash'', jstring (tr_RootHash tree))])))"

definition entries_field :: "string \<Rightarrow> json \<Rightarrow> (string \<times> string) list \<Rightarrow> (string \<times> string) list option" where
  "entries_field n j x = (if names ''entries'' n then decode_slice decode_kv j else Some x)"

text \<open>The system and the clock for each put are arguments; errors are logged only.\<close>

fun push_entries ::
  "(Entry, 't) btree_ops \<Rightarrow> (os_env \<times> int) list \<Rightarrow> (string \<times> string) list \<Rightarrow> 't StorageEngine \<Rightarrow> 't StorageEngine" where
  "push_entries bt ((os, now) # envs) ((k, v) # es) e = push_entries bt envs es (snd (Engine_Put bt os now k v e))"
| "push_entries bt envs es e = e"

definition HandleSyncPush ::
  "(Entry, 't) btree_ops \<Rightarrow> (nat \<Rightarrow> os_env \<times> int) \<Rightarrow> api_request \<Rightarrow> 't Handlers \<Rightarrow> api_response \<times> 't Handlers" where
  "HandleSyncPush bt env r h =
     (case Option.bind (hr_body r) (\<lambda>j. decode_struct entries_field j []) of
        None \<Rightarrow> (writeError 400 ''invalid body'', h)
      | Some entries \<Rightarrow>
          (let c = hd_coordinator h;
               e = push_entries bt (map env [0..<length entries]) entries (co_local c)
           in (writeJSON [] 200 (JObj [(''status'', JStr ''ok'')]), h\<lparr>hd_coordinator := c\<lparr>co_local := e\<rparr>\<rparr>)))"

section \<open>Middleware\<close>

text \<open>A handler's outcome; a panic leaves the headers set so far, and no status.\<close>

datatype outcome = Served api_response | Panicked "(string \<times> string) list"

definition CORSMiddleware :: "string list \<Rightarrow> (api_request \<Rightarrow> outcome) \<Rightarrow> api_request \<Rightarrow> outcome" where
  "CORSMiddleware allowedOrigins next r =
     (let origin = hr_header r ''Origin'';
          headers = (if \<exists>a\<in>set allowedOrigins. a = ''*'' \<or> a = origin
                     then [(''Access-Control-Allow-Origin'', origin),
                           (''Access-Control-Allow-Methods'', ''GET, POST, DELETE, OPTIONS''),
                           (''Access-Control-Allow-Headers'', ''Content-Type, Authorization, X-Session-ID'')]
                     else [])
      in if hr_method r = OPTIONS then Served \<lparr>rs_status = 204, rs_headers = headers, rs_body = None\<rparr>
         else case next r of
                Panicked hs \<Rightarrow> Panicked (headers @ hs)
              | Served resp \<Rightarrow> Served (resp\<lparr>rs_headers := headers @ rs_headers resp\<rparr>))"

text \<open>\<open>http.Error\<close> writes a text body.\<close>

definition RecoveryMiddleware :: "(api_request \<Rightarrow> outcome) \<Rightarrow> api_request \<Rightarrow> outcome" where
  "RecoveryMiddleware next r =
     (case next r of
        Served resp \<Rightarrow> Served resp
      | Panicked hs \<Rightarrow>
          Served \<lparr>rs_status = 500,
                  rs_headers = hs @ [(''Content-Type'', ''text/plain; charset=utf-8''), (''X-Content-Type-Options'', ''nosniff'')],
                  rs_body = None\<rparr>)"

text \<open>The response and the status that is logged for it.\<close>

definition LoggingMiddleware :: "(api_request \<Rightarrow> outcome) \<Rightarrow> api_request \<Rightarrow> outcome \<times> int option" where
  "LoggingMiddleware next r =
     (case next r of Served resp \<Rightarrow> (Served resp, Some (rs_status resp)) | Panicked hs \<Rightarrow> (Panicked hs, None))"

end
