(* ===== verification/KV_Sync.thy ===== *)
theory KV_Sync
  imports KV_Handlers
begin

text \<open>
  \<open>sync/sync.go\<close>: anti-entropy. The node builds a Merkle tree of its own data, fetches the tree of
  each peer and pushes the entries of differing buckets. The requests that are sent are part of the
  result, since they change the peer.
\<close>

section \<open>Anti-entropy\<close>

definition defaultSyncInterval :: int where "defaultSyncInterval = 10 * minute_ns"

record PeerInfo =
  pi_NodeID :: string
  pi_HTTPAddress :: string

datatype sync_error = ErrSyncScan kv_error | ErrSyncRequest | ErrSyncTransport | ErrSyncStatus int | ErrSyncDecode

text \<open>The tree: every live value below the largest key the scan asks for, stored under itself.\<close>

definition scan_limit :: key where "scan_limit = [CHR 0xFF, CHR 0xFF, CHR 0xFF, CHR 0xFF]"

definition value_entries :: "KVValue list \<Rightarrow> MerkleEntry list" where
  "value_entries vals = foldl (\<lambda>es v. es @ [\<lparr>me_Key = v_Data v, me_Value = v_Data v\<rparr>]) [] vals"

definition buildLocalTree ::
  "(Entry, 't) btree_ops \<Rightarrow> (bytes \<Rightarrow> bytes) \<Rightarrow> (MerkleEntry list \<Rightarrow> MerkleEntry list) \<Rightarrow> 't StorageEngine \<Rightarrow> MerkleTree" where
  "buildLocalTree bt sha sorter e =
     (case Engine_Scan bt [] scan_limit e of
        Inl err \<Rightarrow> Merkle_Build sha sorter []
      | Inr vals \<Rightarrow> Merkle_Build sha sorter (value_entries vals))"

text \<open>The struct the peer's tree is decoded into: root, nodes and buckets at the top level.\<close>

definition merkle_field ::
  "string \<Rightarrow> json \<Rightarrow> string \<times> string list \<times> string list \<Rightarrow> (string \<times> string list \<times> string list) option" where
  "merkle_field n j x =
     (case x of (root, nodes, buckets) \<Rightarrow>
        if names ''root_hash'' n then map_option (\<lambda>s. (s, nodes, buckets)) (decode_string j root)
        else if names ''nodes'' n then map_option (\<lambda>ns. (root, ns, buckets)) (decode_slice (\<lambda>j. decode_string j []) j)
        else if names ''buckets'' n then map_option (\<lambda>bs. (root, nodes, bs)) (decode_slice (\<lambda>j. decode_string j []) j)
        else Some x)"

definition tree_of_payload :: "string \<times> string list \<times> string list \<Rightarrow> MerkleTree" where
  "tree_of_payload payload =
     (case payload of (root, nodes, buckets) \<Rightarrow>
        \<lparr>tr_buckets = foldl (\<lambda>bs i. if i < numBuckets then bs[i := buckets ! i] else bs)
                        (replicate numBuckets []) [0..<length buckets],
         tr_nodes = nodes, tr_RootHash = root\<rparr>)"

definition fetchMerkleTree :: "network \<Rightarrow> PeerInfo \<Rightarrow> sync_error + MerkleTree" where
  "fetchMerkleTree net peer =
     (let url = ''http://'' @ pi_HTTPAddress peer @ ''/api/v1/admin/merkle''
      in if \<not> net_url_ok net url then Inl ErrSyncRequest
         else case client_do net False \<lparr>rq_method = GET, rq_url = url, rq_body = None\<rparr> of
                HttpFailed \<Rightarrow> Inl ErrSyncTransport
              | HttpResponse st b \<Rightarrow>
                  if st \<noteq> 200 then Inl (ErrSyncStatus st)
                  else case Option.bind b (\<lambda>j. decode_struct merkle_field j ([], [], [])) of
                         None \<Rightarrow> Inl ErrSyncDecode
                       | Some payload \<Rightarrow> Inr (tree_of_payload payload))"

text \<open>\<open>syncBucket\<close>: the error, and the request that was sent.\<close>

definition push_body :: "bytes list \<Rightarrow> json" where
  "push_body toSend = JObj [(''entries'', JArr (map (\<lambda>d. JObj [(''key'', jstring d), (''value'', jstring d)]) toSend))]"

definition bucket_values :: "(bytes \<Rightarrow> bytes) \<Rightarrow> nat \<Rightarrow> KVValue list \<Rightarrow> bytes list" where
  "bucket_values sha bucketIdx vals =
     foldl (\<lambda>toSend v. if bucketIndex sha (v_Data v) = bucketIdx then toSend @ [v_Data v] else toSend) [] vals"

definition syncBucket ::
  "(Entry, 't) btree_ops \<Rightarrow> (bytes \<Rightarrow> bytes) \<Rightarrow> network \<Rightarrow> PeerInfo \<Rightarrow> nat \<Rightarrow> 't StorageEngine \<Rightarrow> sync_error option \<times> http_request list" where
  "syncBucket bt sha net peer bucketIdx e =
     (case Engine_Scan bt [] scan_limit e of
        Inl err \<Rightarrow> (Some (ErrSyncScan err), [])
      | Inr vals \<Rightarrow>
          (let toSend = bucket_values sha bucketIdx vals
           in if length toSend = 0 then (None, [])
              else let url = ''http://'' @ pi_HTTPAddress peer @ ''/api/v1/admin/sync'';
                       req = \<lparr>rq_method = POST, rq_url = url, rq_body = Some (push_body toSend)\<rparr>
                   in if \<not> net_url_ok net url then (Some ErrSyncRequest, [])
                      else case client_do net False req of
                             HttpFailed \<Rightarrow> (Some ErrSyncTransport, [req])
                           | HttpResponse st b \<Rightarrow> (if 400 \<le> st then Some (ErrSyncStatus st) else None, [req])))"

text \<open>A round ends with an error or without, having sent requests, or with a panic.\<close>

datatype sync_outcome = SyncPanic | SyncDone "sync_error option" "http_request list"

definition syncWithPeer ::
  "(Entry, 't) btree_ops \<Rightarrow> (bytes \<Rightarrow> bytes) \<Rightarrow> network \<Rightarrow> PeerInfo \<Rightarrow> MerkleTree \<Rightarrow> 't StorageEngine \<Rightarrow> sync_outcome option" where
  "syncWithPeer bt sha net peer localTree e =
     (case fetchMerkleTree net peer of
        Inl err \<Rightarrow> Some (SyncDone (Some err) [])
      | Inr remoteTree \<Rightarrow>
          if tr_RootHash localTree = tr_RootHash remoteTree then Some (SyncDone None [])
          else case DiffBuckets localTree remoteTree of
                 None \<Rightarrow> None
               | Some (Inl PanicIndexOutOfRange) \<Rightarrow> Some SyncPanic
               | Some (Inr diffs) \<Rightarrow>
                   Some (SyncDone None (foldl (\<lambda>sent idx. sent @ snd (syncBucket bt sha net peer idx e)) [] diffs)))"

fun sync_peers ::
  "(PeerInfo \<Rightarrow> sync_outcome option) \<Rightarrow> string \<Rightarrow> PeerInfo list \<Rightarrow> http_request list \<Rightarrow> sync_outcome option" where
  "sync_peers sync nodeID [] sent = Some (SyncDone None sent)"
| "sync_peers sync nodeID (peer # peers) sent =
     (if pi_NodeID peer = nodeID then sync_peers sync nodeID peers sent
      else case sync peer of
             None \<Rightarrow> None
           | Some SyncPanic \<Rightarrow> Some SyncPanic
           | Some (SyncDone err reqs) \<Rightarrow> sync_peers sync nodeID peers (sent @ reqs))"

text \<open>\<open>syncAll\<close>; the log line slices the first eight characters of the root.\<close>

definition syncAll ::
  "(Entry, 't) btree_ops \<Rightarrow> (bytes \<Rightarrow> bytes) \<Rightarrow> (MerkleEntry list \<Rightarrow> MerkleEntry list) \<Rightarrow> network \<Rightarrow> string \<Rightarrow> PeerInfo list \<Rightarrow>
   't StorageEngine \<Rightarrow> sync_outcome option" where
  "syncAll bt sha sorter net nodeID peers e =
     (if length peers = 0 then Some (SyncDone None [])
      else let localTree = buildLocalTree bt sha sorter e
           in if length (tr_RootHash localTree) < 8 then Some SyncPanic
              else sync_peers (\<lambda>peer. syncWithPeer bt sha net peer localTree e) nodeID peers [])"

section \<open>The peer's tree\<close>

text \<open>The peer wraps its tree in the envelope of the API; the decoder looks for the fields outside of
  it, finds none of them, and reports no error.\<close>

definition serves_merkle :: "network \<Rightarrow> PeerInfo \<Rightarrow> 't Handlers \<Rightarrow> bool" where
  "serves_merkle net peer h \<longleftrightarrow>
     (let url = ''http://'' @ pi_HTTPAddress peer @ ''/api/v1/admin/merkle''
      in hd_merkleBuilder h \<noteq> None \<and> net_url_ok net url \<and>
         net_do net \<lparr>rq_method = GET, rq_url = url, rq_body = None\<rparr> = HttpResponse (rs_status (HandleMerkle h)) (rs_body (HandleMerkle h)))"

lemma fetch_enveloped:
  assumes "serves_merkle net peer h"
  shows "fetchMerkleTree net peer = Inr \<lparr>tr_buckets = replicate numBuckets [], tr_nodes = [], tr_RootHash = []\<rparr>"
proof -
  obtain build where "hd_merkleBuilder h = Some build" using assms by (auto simp: serves_merkle_def Let_def)
  then have "rs_status (HandleMerkle h) = 200" "\<exists>j. rs_body (HandleMerkle h) = Some (JObj [(''data'', j)])"
    by (simp_all add: HandleMerkle_def writeJSON_def APIResponse_def Let_def)
  then show ?thesis using assms
    by (auto simp: serves_merkle_def fetchMerkleTree_def client_do_def decode_struct_def merkle_field_def tree_of_payload_def Let_def)
qed

lemma sync_served_panics:
  assumes "serves_merkle net peer h" "t = Merkle_Build sha sorter es" "tr_RootHash t \<noteq> []"
  shows "syncWithPeer bt sha' net peer t e = Some SyncPanic"
proof -
  have "DiffBuckets t \<lparr>tr_buckets = replicate numBuckets [], tr_nodes = [], tr_RootHash = []\<rparr> = Some (Inl PanicIndexOutOfRange)"
    by (rule DiffBuckets_short [OF assms(2)]) (use assms(3) in auto)
  then show ?thesis using assms(3) by (simp add: syncWithPeer_def fetch_enveloped [OF assms(1)])
qed

section \<open>Pushed entries\<close>

lemma names_entry [simp]: "\<not> names ''key'' ''entries''" by code_simp

lemma bucket_values_filter: "bucket_values sha idx vals = filter (\<lambda>d. bucketIndex sha d = idx) (map v_Data vals)"
proof -
  have "foldl (\<lambda>toSend v. if bucketIndex sha (v_Data v) = idx then toSend @ [v_Data v] else toSend) acc vals =
      acc @ filter (\<lambda>d. bucketIndex sha d = idx) (map v_Data vals)" for acc
    by (induction vals arbitrary: acc) auto
  then show ?thesis by (simp add: bucket_values_def)
qed

lemma decode_push:
  "decode_struct entries_field (push_body ds) [] = Some (map (\<lambda>d. (utf8_coerce d, utf8_coerce d)) ds)"
proof -
  have "decode_kv (JObj [(''key'', jstring d), (''value'', jstring d)]) = Some (utf8_coerce d, utf8_coerce d)" for d
    by (simp add: decode_kv_def decode_struct_def kv_field_def jstring_def)
  then have "those (map (decode_kv \<circ> (\<lambda>d. JObj [(''key'', jstring d), (''value'', jstring d)])) ds) =
      Some (map (\<lambda>d. (utf8_coerce d, utf8_coerce d)) ds)"
    by (induction ds) simp_all
  then show ?thesis by (simp add: push_body_def decode_struct_def entries_field_def decode_slice_def)
qed

context entry_tree
begin

text \<open>A put leaves what other keys read alone, whether it succeeds or not.\<close>

lemma put_other_key:
  assumes "mt_ok bt ok (en_memtable e)" "k' \<noteq> k"
  shows "fst (Engine_Get bt k' (snd (Engine_Put bt os now k v e))) = fst (Engine_Get bt k' e) \<and>
    mt_ok bt ok (en_memtable (snd (Engine_Put bt os now k v e)))"
proof -
  obtain err wal files where w: "WAL_Append os (en_wal e) (put_record now k v) (en_files e) = (err, wal, files)" by (metis prod.exhaust)
  show ?thesis
    using table.get_put [OF assms(1), of k v now k'] assms put_ok [OF assms(1), of k v now]
    by (cases err) (auto simp: Engine_Put_def w Let_def with_metrics_def Engine_Get_def split: option.split)
qed

lemma push_other_key:
  assumes "mt_ok bt ok (en_memtable e)" "k' \<notin> fst ` set es"
  shows "fst (Engine_Get bt k' (push_entries bt envs es e)) = fst (Engine_Get bt k' e)"
  using assms
proof (induction es arbitrary: envs e)
  case (Cons x es)
  obtain k v where x: "x = (k, v)" by (cases x)
  show ?case
  proof (cases envs)
    case (Cons env rest)
    obtain os now where env: "env = (os, now)" by (cases env)
    have "k' \<noteq> k" "k' \<notin> fst ` set es" using Cons.prems(2) by (simp_all add: x)
    then show ?thesis
      using Cons.IH [of "snd (Engine_Put bt os now k v e)" rest] put_other_key [OF Cons.prems(1), of k' k os now v] by (simp add: Cons x env)
  qed simp
qed simp

end

section \<open>A peer that serves its tree\<close>

definition serving :: "Entry slist Handlers" where
  "serving = NewHandlers (NewCoordinator ReplConfig_Default (NewRing 1) demo2) SessionManager_New
     (Some (buildLocalTree slist_ops (\<lambda>_. replicate 32 (CHR ''0'')) (\<lambda>es. es))) ''n2''"

definition served_net :: network where
  "served_net = \<lparr>net_url_ok = (\<lambda>_. True), net_do = (\<lambda>_. HttpResponse (rs_status (HandleMerkle serving)) (rs_body (HandleMerkle serving)))\<rparr>"

section \<open>Properties\<close>



text \<open>
  Anti-entropy does not repair: a push carries the values of the differing bucket, each as the
  key and the value of an entry, and that is what the peer stores. No key of the peer changes what
  it reads unless it equals a value of the pushing node.
\<close>

theorem sync_push_never_repairs:
  assumes "btree bt entryLess ok" "mt_ok bt ok (en_memtable (co_local (hd_coordinator h)))"
    and "Engine_Scan bt [] scan_limit e = Inr vals" "syncBucket bt sha net peer idx e = (err, [req])"
    and "hr_body r = rq_body req" "HandleSyncPush bt env r h = (resp, h')"
  shows "\<exists>ds. set ds = {v_Data v |v. v \<in> set vals \<and> bucketIndex sha (v_Data v) = idx} \<and>
      co_local (hd_coordinator h') =
        push_entries bt (map env [0..<length ds]) (map (\<lambda>d. (utf8_coerce d, utf8_coerce d)) ds) (co_local (hd_coordinator h)) \<and>
    (\<forall>k. k \<notin> (\<lambda>v. utf8_coerce (v_Data v)) ` set vals \<longrightarrow>
       fst (Engine_Get bt k (co_local (hd_coordinator h'))) = fst (Engine_Get bt k (co_local (hd_coordinator h))))"
proof -
  let ?ds = "bucket_values sha idx vals" and ?e = "co_local (hd_coordinator h)"
  let ?push = "push_entries bt (map env [0..<length ?ds]) (map (\<lambda>d. (utf8_coerce d, utf8_coerce d)) ?ds) ?e"
  have ds: "set ?ds = {v_Data v |v. v \<in> set vals \<and> bucketIndex sha (v_Data v) = idx}" by (auto simp: bucket_values_filter)
  have "rq_body req = Some (push_body ?ds)"
    using assms(4) by (auto simp: syncBucket_def assms(3) Let_def split: if_splits http_outcome.splits)
  then have h': "co_local (hd_coordinator h') = ?push"
    using assms(5,6) by (auto simp: HandleSyncPush_def decode_push Let_def)
  have "fst (Engine_Get bt k ?push) = fst (Engine_Get bt k ?e)" if k: "k \<notin> (\<lambda>v. utf8_coerce (v_Data v)) ` set vals" for k
    by (rule entry_tree.push_other_key [OF entry_tree.intro [OF assms(1)] assms(2)]) (use k ds in auto)
  then show ?thesis by (intro exI [of _ ?ds] conjI ds h') (simp add: h')
qed

theorem sync_push_never_repairs_witness:
  "\<exists>req resp h'. syncBucket slist_ops (\<lambda>_. replicate 32 (CHR ''0'')) served_net \<lparr>pi_NodeID = ''n2'', pi_HTTPAddress = ''host2''\<rparr>
       (bucketIndex (\<lambda>_. replicate 32 (CHR ''0'')) ''x'') demo1 = (None, [req]) \<and>
     HandleSyncPush slist_ops (\<lambda>i. (os_fine 9, 9)) \<lparr>hr_method = POST, hr_key = [], hr_query = (\<lambda>_. []), hr_header = (\<lambda>_. []), hr_body = rq_body req\<rparr>
       serving = (resp, h') \<and>
     fst (Engine_Get slist_ops ''a'' demo1) = Inr \<lparr>v_Data = ''x'', v_Timestamp = 2\<rparr> \<and>
     fst (Engine_Get slist_ops ''a'' (co_local (hd_coordinator h'))) = Inl ErrKeyNotFound"
proof -
  let ?sha = "\<lambda>_. replicate 32 (CHR ''0'')"
  have "Memtable_Scan slist_ops (en_memtable demo1) [] scan_limit = [mk_entry ''a'' ''x'' 2 False]"
      "Memtable_Get slist_ops (en_memtable demo1) ''a'' = Some (mk_entry ''a'' ''x'' 2 False)"
      "Memtable_Get slist_ops (en_memtable demo2) ''a'' = None"
    unfolding demo_tables by code_simp+
  then have s: "Engine_Scan slist_ops [] scan_limit demo1 = Inr [\<lparr>v_Data = ''x'', v_Timestamp = 2\<rparr>]"
    and g: "fst (Engine_Get slist_ops ''a'' demo1) = Inr \<lparr>v_Data = ''x'', v_Timestamp = 2\<rparr>"
      "fst (Engine_Get slist_ops ''a'' demo2) = Inl ErrKeyNotFound"
    using demo1_wal(3) demo2_wal(3) by (simp_all add: Engine_Scan_def Engine_Get_def Let_def mk_entry_def)
  obtain req where b: "syncBucket slist_ops ?sha served_net \<lparr>pi_NodeID = ''n2'', pi_HTTPAddress = ''host2''\<rparr> (bucketIndex ?sha ''x'') demo1 = (None, [req])"
    using s by (simp add: syncBucket_def bucket_values_filter served_net_def client_do_def Let_def serving_def HandleMerkle_def NewHandlers_def writeJSON_def)
  let ?r = "\<lparr>hr_method = POST, hr_key = [], hr_query = (\<lambda>_. []), hr_header = (\<lambda>_. []), hr_body = rq_body req\<rparr>"
  obtain resp h' where p: "HandleSyncPush slist_ops (\<lambda>i. (os_fine 9, 9)) ?r serving = (resp, h')" by (metis prod.exhaust)
  have l: "co_local (hd_coordinator serving) = demo2" by (simp add: serving_def NewHandlers_def NewCoordinator_def)
  have "utf8_coerce ''x'' = ''x''" by code_simp
  then have "fst (Engine_Get slist_ops ''a'' (co_local (hd_coordinator h'))) = Inl ErrKeyNotFound"
    using sync_push_never_repairs [OF slist.btree_axioms _ s b _ p] demo_ok(2) l g(2) by force
  with b p g show ?thesis by blast
qed

end
