(* ===== verification/KV_Membership.thy ===== *)
theory KV_Membership
  imports KV_Ring KV_Config
begin

text \<open>
  \<open>cluster/membership.go\<close>: the manager that keeps the ring in step with the gossip library.
  \<open>hashicorp/memberlist\<close> is not modelled: what the manager sees of it is the sequence of
  notifications, the outcome of creating it, and the list of members, all arguments here. So are
  \<open>net.SplitHostPort\<close>, \<open>net.LookupPort\<close> and the JSON decoding of a node's metadata.
\<close>

section \<open>The manager\<close>

datatype EventType = EventJoin | EventLeave | EventFail

record MembershipEvent =
  ev_Type :: EventType
  ev_Node :: Node
  ev_OccurredAt :: int

record NodeMeta =
  nm_NodeID :: string
  nm_GRPCAddress :: string
  nm_HTTPAddress :: string

record ClusterManager =
  cm_ring :: Ring
  cm_meta :: NodeMeta
  cm_EventCh :: "MembershipEvent list"

record ClusterConfig =
  cc_NodeID :: string
  cc_BindAddr :: string
  cc_GRPCAddress :: string
  cc_HTTPAddress :: string
  cc_SeedNodes :: "string list"

text \<open>What the notifications carry of a \<open>memberlist.Node\<close>.\<close>

record ml_node =
  ml_Name :: string
  ml_Addr :: string
  ml_Meta :: bytes

text \<open>The part of \<open>memberlist.Config\<close> that \<open>NewManager\<close> sets.\<close>

record ml_config =
  mc_Name :: string
  mc_BindAddr :: string
  mc_BindPort :: int
  mc_AdvertiseAddr :: string
  mc_AdvertisePort :: int

datatype cluster_error = ErrBindAddress | ErrGossipPort | ErrCreateMemberlist | ErrJoinCluster | ErrEmptyMeta | ErrMetaJSON

definition event_capacity :: nat where "event_capacity = 64"

text \<open>\<open>emit\<close>: a send that does not block; events are dropped while the channel is full.\<close>

definition emit :: "int \<Rightarrow> EventType \<Rightarrow> Node \<Rightarrow> ClusterManager \<Rightarrow> ClusterManager" where
  "emit now t node m =
     (if length (cm_EventCh m) < event_capacity
      then m\<lparr>cm_EventCh := cm_EventCh m @ [\<lparr>ev_Type = t, ev_Node = node, ev_OccurredAt = now\<rparr>]\<rparr>
      else m)"

definition parseMeta :: "(bytes \<Rightarrow> NodeMeta option) \<Rightarrow> bytes \<Rightarrow> cluster_error + NodeMeta" where
  "parseMeta unmarshal raw =
     (if raw = [] then Inl ErrEmptyMeta
      else case unmarshal raw of None \<Rightarrow> Inl ErrMetaJSON | Some m \<Rightarrow> Inr m)"

definition NotifyJoin ::
  "digest \<Rightarrow> (bytes \<Rightarrow> NodeMeta option) \<Rightarrow> int \<Rightarrow> ml_node \<Rightarrow> ClusterManager \<Rightarrow> ClusterManager" where
  "NotifyJoin sha unmarshal now n m =
     (let meta = (case parseMeta unmarshal (ml_Meta n) of
                    Inl _ \<Rightarrow> \<lparr>nm_NodeID = ml_Name n, nm_GRPCAddress = ml_Addr n, nm_HTTPAddress = []\<rparr>
                  | Inr meta \<Rightarrow> meta);
          m1 = m\<lparr>cm_ring := AddNode sha (nm_NodeID meta) (nm_GRPCAddress meta) (cm_ring m)\<rparr>
      in emit now EventJoin \<lparr>n_ID = nm_NodeID meta, n_Address = nm_GRPCAddress meta\<rparr> m1)"

definition NotifyLeave :: "digest \<Rightarrow> int \<Rightarrow> ml_node \<Rightarrow> ClusterManager \<Rightarrow> ClusterManager" where
  "NotifyLeave sha now n m =
     (let m1 = m\<lparr>cm_ring := snd (RemoveNode sha (ml_Name n) (cm_ring m))\<rparr>
      in emit now EventLeave \<lparr>n_ID = ml_Name n, n_Address = []\<rparr> m1)"

definition NotifyUpdate :: "ml_node \<Rightarrow> ClusterManager \<Rightarrow> ClusterManager" where
  "NotifyUpdate n m = m"

datatype notification = Joined ml_node | Left ml_node | Updated ml_node

definition notify ::
  "digest \<Rightarrow> (bytes \<Rightarrow> NodeMeta option) \<Rightarrow> int \<times> notification \<Rightarrow> ClusterManager \<Rightarrow> ClusterManager" where
  "notify sha unmarshal ev m =
     (case ev of (now, Joined n) \<Rightarrow> NotifyJoin sha unmarshal now n m
               | (now, Left n) \<Rightarrow> NotifyLeave sha now n m
               | (now, Updated n) \<Rightarrow> NotifyUpdate n m)"

text \<open>
  \<open>NewManager\<close>: \<open>split_addr\<close> and \<open>lookup_port\<close> stand for the two functions of package \<open>net\<close>,
  \<open>defaults\<close> for \<open>memberlist.DefaultLocalConfig\<close>, \<open>during\<close> for the notifications delivered while
  \<open>memberlist.Create\<close> runs (it announces the local node), \<open>create_ok\<close> for its outcome.
\<close>

definition gossip_config ::
  "(string \<Rightarrow> (string \<times> string) option) \<Rightarrow> (string \<Rightarrow> int option) \<Rightarrow> ml_config \<Rightarrow> ClusterConfig \<Rightarrow> cluster_error + ml_config" where
  "gossip_config split_addr lookup_port defaults cfg =
     (let c0 = defaults\<lparr>mc_Name := cc_NodeID cfg\<rparr>
      in if cc_BindAddr cfg \<noteq> []
         then case split_addr (cc_BindAddr cfg) of
                None \<Rightarrow> Inl ErrBindAddress
              | Some (host, portStr) \<Rightarrow>
                  (case lookup_port portStr of
                     None \<Rightarrow> Inl ErrGossipPort
                   | Some port \<Rightarrow>
                       let c1 = c0\<lparr>mc_BindAddr := host, mc_BindPort := port\<rparr>
                       in Inr (if host \<noteq> [] \<and> host \<noteq> ''0.0.0.0''
                               then c1\<lparr>mc_AdvertiseAddr := host, mc_AdvertisePort := port\<rparr> else c1))
         else Inr c0)"

definition ClusterManager_New ::
  "digest \<Rightarrow> (bytes \<Rightarrow> NodeMeta option) \<Rightarrow> (string \<Rightarrow> (string \<times> string) option) \<Rightarrow> (string \<Rightarrow> int option) \<Rightarrow> ml_config \<Rightarrow>
   (int \<times> notification) list \<Rightarrow> bool \<Rightarrow> ClusterConfig \<Rightarrow> Ring \<Rightarrow> cluster_error + ClusterManager" where
  "ClusterManager_New sha unmarshal split_addr lookup_port defaults during create_ok cfg ring =
     (let m = \<lparr>cm_ring = ring,
               cm_meta = \<lparr>nm_NodeID = cc_NodeID cfg, nm_GRPCAddress = cc_GRPCAddress cfg, nm_HTTPAddress = cc_HTTPAddress cfg\<rparr>,
               cm_EventCh = []\<rparr>
      in case gossip_config split_addr lookup_port defaults cfg of
           Inl err \<Rightarrow> Inl err
         | Inr c \<Rightarrow>
             let m1 = foldl (\<lambda>m ev. notify sha unmarshal ev m) m during
             in if \<not> create_ok then Inl ErrCreateMemberlist
                else Inr (m1\<lparr>cm_ring := AddNode sha (cc_NodeID cfg) (cc_GRPCAddress cfg) (cm_ring m1)\<rparr>))"

definition Cluster_Join :: "(string list \<Rightarrow> int option) \<Rightarrow> string list \<Rightarrow> cluster_error option" where
  "Cluster_Join ml_join seedAddrs =
     (if length seedAddrs = 0 then None
      else case ml_join seedAddrs of None \<Rightarrow> Some ErrJoinCluster | Some n \<Rightarrow> None)"

section \<open>The ring follows the notifications\<close>

definition member_ids :: "Ring \<Rightarrow> string set" where
  "member_ids r = fst ` set (r_nodes r)"

lemma member_ids_new: "member_ids (NewRing vn) = {}"
  by (simp add: member_ids_def NewRing_def)

lemma member_ids_add: "member_ids (AddNode sha nid a r) = insert nid (member_ids r)"
  by (simp add: member_ids_def AddNode_sel AList.dom_update)

lemma member_ids_remove:
  assumes "ring_ok sha r"
  shows "member_ids (snd (RemoveNode sha nid r)) = member_ids r - {nid}"
proof (cases "map_of (r_nodes r) nid")
  case None
  then have "nid \<notin> member_ids r" by (simp add: member_ids_def map_of_eq_None_iff)
  with None show ?thesis by (simp add: RemoveNode_unknown)
next
  case (Some n)
  have "fst ` set (AList.delete nid (r_nodes r)) = fst ` set (r_nodes r) - {nid}"
    by (auto simp: AList.delete_eq image_iff)
  then show ?thesis by (simp add: member_ids_def RemoveNode_known [OF assms Some])
qed

lemma emit_sel [simp]: "cm_ring (emit now t node m) = cm_ring m" "cm_meta (emit now t node m) = cm_meta m"
  by (simp_all add: emit_def)

lemma emit_capacity: "length (cm_EventCh m) \<le> event_capacity \<Longrightarrow> length (cm_EventCh (emit now t node m)) \<le> event_capacity"
  by (simp add: emit_def)

text \<open>The identity a join adds: that of the metadata, or the gossip name when it cannot be parsed.\<close>

definition joined_id :: "(bytes \<Rightarrow> NodeMeta option) \<Rightarrow> ml_node \<Rightarrow> string" where
  "joined_id unmarshal n = (case parseMeta unmarshal (ml_Meta n) of Inl _ \<Rightarrow> ml_Name n | Inr meta \<Rightarrow> nm_NodeID meta)"

fun view :: "(bytes \<Rightarrow> NodeMeta option) \<Rightarrow> string set \<Rightarrow> (int \<times> notification) list \<Rightarrow> string set" where
  "view unmarshal S [] = S"
| "view unmarshal S ((now, Joined n) # evs) = view unmarshal (insert (joined_id unmarshal n) S) evs"
| "view unmarshal S ((now, Left n) # evs) = view unmarshal (S - {ml_Name n}) evs"
| "view unmarshal S ((now, Updated n) # evs) = view unmarshal S evs"

lemma notify_join_ring:
  "cm_ring (NotifyJoin sha unmarshal now n m) =
     AddNode sha (joined_id unmarshal n)
       (case parseMeta unmarshal (ml_Meta n) of Inl _ \<Rightarrow> ml_Addr n | Inr meta \<Rightarrow> nm_GRPCAddress meta) (cm_ring m)"
  by (simp add: NotifyJoin_def Let_def joined_id_def split: sum.split)

lemma notify_view:
  "ring_ok sha (cm_ring m) \<Longrightarrow> length (cm_EventCh m) \<le> event_capacity \<Longrightarrow>
   ring_ok sha (cm_ring (foldl (\<lambda>m ev. notify sha unmarshal ev m) m evs)) \<and>
   member_ids (cm_ring (foldl (\<lambda>m ev. notify sha unmarshal ev m) m evs)) = view unmarshal (member_ids (cm_ring m)) evs \<and>
   length (cm_EventCh (foldl (\<lambda>m ev. notify sha unmarshal ev m) m evs)) \<le> event_capacity"
proof (induction unmarshal "member_ids (cm_ring m)" evs arbitrary: m rule: view.induct)
  case (2 unmarshal now n evs)
  let ?m = "NotifyJoin sha unmarshal now n m"
  have "length (cm_EventCh ?m) \<le> event_capacity" using 2(3) by (simp add: NotifyJoin_def Let_def emit_capacity)
  with 2(1) [of ?m] 2(2) show ?case
    by (simp add: notify_def notify_join_ring member_ids_add ring_ok_add)
next
  case (3 unmarshal now n evs)
  let ?m = "NotifyLeave sha now n m"
  have "length (cm_EventCh ?m) \<le> event_capacity" using 3(3) by (simp add: NotifyLeave_def Let_def emit_capacity)
  moreover have "cm_ring ?m = snd (RemoveNode sha (ml_Name n) (cm_ring m))" by (simp add: NotifyLeave_def Let_def)
  ultimately show ?case using 3(1) [of ?m] 3(2) by (simp add: notify_def member_ids_remove ring_ok_remove)
qed (simp_all add: notify_def NotifyUpdate_def)

section \<open>Properties\<close>

text \<open>
  C14. The ring's members are exactly what the notifications say: starting from the local node, a
  join adds the identity in the metadata (or the gossip name), a leave removes the gossip name,
  an update changes nothing; the event channel never exceeds its capacity, and events it drops do
  not affect the ring.
\<close>

theorem ring_follows_membership:
  assumes "ClusterManager_New sha unmarshal split_addr lookup_port defaults during True cfg (NewRing vn) = Inr m"
  shows "fst ` set (r_nodes (cm_ring (foldl (\<lambda>m ev. notify sha unmarshal ev m) m evs))) =
      view unmarshal (insert (cc_NodeID cfg) (view unmarshal {} during)) evs \<and>
    length (cm_EventCh (foldl (\<lambda>m ev. notify sha unmarshal ev m) m evs)) \<le> 64"
proof -
  let ?m0 = "\<lparr>cm_ring = NewRing vn,
      cm_meta = \<lparr>nm_NodeID = cc_NodeID cfg, nm_GRPCAddress = cc_GRPCAddress cfg, nm_HTTPAddress = cc_HTTPAddress cfg\<rparr>,
      cm_EventCh = []\<rparr>"
  let ?m1 = "foldl (\<lambda>m ev. notify sha unmarshal ev m) ?m0 during"
  have m: "m = ?m1\<lparr>cm_ring := AddNode sha (cc_NodeID cfg) (cc_GRPCAddress cfg) (cm_ring ?m1)\<rparr>"
    using assms by (auto simp: ClusterManager_New_def Let_def split: sum.splits)
  have 1: "ring_ok sha (cm_ring ?m1)" "member_ids (cm_ring ?m1) = view unmarshal {} during" "length (cm_EventCh ?m1) \<le> event_capacity"
    using notify_view [of sha ?m0 unmarshal during] by (simp_all add: ring_ok_new member_ids_new)
  have "ring_ok sha (cm_ring m)" "member_ids (cm_ring m) = insert (cc_NodeID cfg) (view unmarshal {} during)"
      "length (cm_EventCh m) \<le> event_capacity"
    using 1 by (simp_all add: m ring_ok_add member_ids_add)
  with notify_view [of sha m unmarshal evs] show ?thesis by (simp add: member_ids_def event_capacity_def)
qed

definition demo_ml :: ml_config where
  "demo_ml = \<lparr>mc_Name = [], mc_BindAddr = [], mc_BindPort = 7946, mc_AdvertiseAddr = [], mc_AdvertisePort = 7946\<rparr>"

definition demo_cc :: ClusterConfig where
  "demo_cc = \<lparr>cc_NodeID = ''n1'', cc_BindAddr = [], cc_GRPCAddress = '':50051'', cc_HTTPAddress = '':8080'', cc_SeedNodes = []\<rparr>"

definition peer :: ml_node where
  "peer = \<lparr>ml_Name = ''n2'', ml_Addr = ''10.0.0.2'', ml_Meta = []\<rparr>"

theorem ring_follows_membership_witness:
  "\<exists>m. ClusterManager_New toy_sha (\<lambda>_. None) (\<lambda>_. None) (\<lambda>_. None) demo_ml [] True demo_cc (NewRing 1) = Inr m \<and>
     fst ` set (r_nodes (cm_ring (foldl (\<lambda>m ev. notify toy_sha (\<lambda>_. None) ev m) m [(1, Joined peer)]))) = {''n1'', ''n2''} \<and>
     fst ` set (r_nodes (cm_ring (foldl (\<lambda>m ev. notify toy_sha (\<lambda>_. None) ev m) m [(1, Joined peer), (2, Left peer)]))) = {''n1''}"
proof -
  obtain m where m: "ClusterManager_New toy_sha (\<lambda>_. None) (\<lambda>_. None) (\<lambda>_. None) demo_ml [] True demo_cc (NewRing 1) = Inr m"
    by (simp add: ClusterManager_New_def gossip_config_def demo_cc_def Let_def)
  show ?thesis
    using ring_follows_membership [OF m, of "[(1, Joined peer)]"]
      ring_follows_membership [OF m, of "[(1, Joined peer), (2, Left peer)]"] m
    by (auto simp: joined_id_def parseMeta_def peer_def demo_cc_def)
qed

end
