(* ===== verification/KV_Server.thy ===== *)
theory KV_Server
  imports KV_Sync KV_Membership
begin

text \<open>
  \<open>cmd/server/main.go\<close>: how a node is put together. The ring is one object that the membership
  manager changes and the coordinator, the hint delivery and anti-entropy read; here the copy in the
  coordinator is renewed with every notification. The listeners, the logger and the signals are left
  out.
\<close>

section \<open>The node\<close>

datatype main_error = FatalOpenEngine kv_error | FatalCluster cluster_error

record 't Server =
  sv_cluster :: ClusterManager
  sv_handlers :: "'t Handlers"

definition replica_config :: "Config \<Rightarrow> ReplConfig" where
  "replica_config cfg =
     \<lparr>rc_N = c_ReplicationN cfg, rc_R = c_ReplicationR cfg, rc_W = c_ReplicationW cfg, rc_Timeout = 2 * second_ns,
      rc_NodeID = c_NodeID cfg, rc_NodeHTTPAddress = c_ListenHTTP cfg\<rparr>"

definition cluster_config :: "Config \<Rightarrow> ClusterConfig" where
  "cluster_config cfg =
     \<lparr>cc_NodeID = c_NodeID cfg, cc_BindAddr = c_GossipBind cfg, cc_GRPCAddress = c_ListenGRPC cfg,
      cc_HTTPAddress = c_ListenHTTP cfg, cc_SeedNodes = []\<rparr>"

text \<open>\<open>merkleBuilder\<close>: the error of the scan is dropped.\<close>

definition merkleBuilder ::
  "(Entry, 't) btree_ops \<Rightarrow> (bytes \<Rightarrow> bytes) \<Rightarrow> (MerkleEntry list \<Rightarrow> MerkleEntry list) \<Rightarrow> 't StorageEngine \<Rightarrow> MerkleTree" where
  "merkleBuilder bt sha sorter e =
     (let vals = (case Engine_Scan bt [] scan_limit e of Inl _ \<Rightarrow> [] | Inr vals \<Rightarrow> vals)
      in Merkle_Build sha sorter (value_entries vals))"

text \<open>The two closures over the ring: the address of a node for hints, and the peers.\<close>

definition getAddress :: "Ring \<Rightarrow> string \<Rightarrow> string" where
  "getAddress ring nodeID =
     (case find (\<lambda>n. n_ID n = nodeID) (Ring_Nodes ring) of Some n \<Rightarrow> n_Address n | None \<Rightarrow> [])"

definition getPeers :: "Ring \<Rightarrow> PeerInfo list" where
  "getPeers ring =
     foldl (\<lambda>peers n. peers @ [\<lparr>pi_NodeID = n_ID n, pi_HTTPAddress = n_Address n\<rparr>]) [] (Ring_Nodes ring)"

text \<open>\<open>main\<close> up to the start of the servers. What the environment answers: the files, and for the
  membership library what \<open>ClusterManager_New\<close> takes.\<close>

record start_env =
  st_os :: os_env
  st_snap :: snap_env
  st_mkdir_ok :: bool
  st_files :: "bytes dir"
  st_snaps :: "snap_file dir"
  st_split_addr :: "string \<Rightarrow> (string \<times> string) option"
  st_lookup_port :: "string \<Rightarrow> int option"
  st_defaults :: ml_config
  st_during :: "(int \<times> notification) list"
  st_create_ok :: bool

definition server_start ::
  "(Entry, 't) btree_ops \<Rightarrow> digest \<Rightarrow> (MerkleEntry list \<Rightarrow> MerkleEntry list) \<Rightarrow> (bytes \<Rightarrow> NodeMeta option) \<Rightarrow>
   start_env \<Rightarrow> Config \<Rightarrow> main_error + 't Server" where
  "server_start bt sha sorter unmarshal env cfg =
     (case Engine_Open bt (st_os env) (st_snap env) (st_mkdir_ok env) cfg (st_files env) (st_snaps env) of
        (Inl err, _) \<Rightarrow> Inl (FatalOpenEngine err)
      | (Inr e, _) \<Rightarrow>
          (case ClusterManager_New sha unmarshal (st_split_addr env) (st_lookup_port env) (st_defaults env) (st_during env)
                  (st_create_ok env) (cluster_config cfg) (NewRing DefaultVirtualNodes) of
             Inl err \<Rightarrow> Inl (FatalCluster err)
           | Inr m \<Rightarrow>
               Inr \<lparr>sv_cluster = m,
                    sv_handlers = NewHandlers (NewCoordinator (replica_config cfg) (cm_ring m) e) SessionManager_New
                      (Some (merkleBuilder bt sha sorter)) (c_NodeID cfg)\<rparr>))"

text \<open>A notification of the membership library reaches the ring that the coordinator uses.\<close>

definition server_notify ::
  "digest \<Rightarrow> (bytes \<Rightarrow> NodeMeta option) \<Rightarrow> int \<times> notification \<Rightarrow> 't Server \<Rightarrow> 't Server" where
  "server_notify sha unmarshal ev s =
     (let m = notify sha unmarshal ev (sv_cluster s);
          h = sv_handlers s
      in s\<lparr>sv_cluster := m, sv_handlers := h\<lparr>hd_coordinator := (hd_coordinator h)\<lparr>co_ring := cm_ring m\<rparr>\<rparr>\<rparr>)"

text \<open>The end of \<open>main\<close>: after the servers are drained, the engine is closed.\<close>

definition server_stop :: "(Entry, 't) btree_ops \<Rightarrow> os_env \<Rightarrow> snap_env \<Rightarrow> int \<Rightarrow> 't Server \<Rightarrow> 't Server" where
  "server_stop bt os sn now s =
     (let h = sv_handlers s; c = hd_coordinator h
      in s\<lparr>sv_handlers := h\<lparr>hd_coordinator := c\<lparr>co_local := snd (Engine_Close bt os sn now (co_local c))\<rparr>\<rparr>\<rparr>)"

datatype log_level = DebugLevel | InfoLevel | WarnLevel | ErrorLevel

definition logger_level :: "string \<Rightarrow> log_level" where
  "logger_level level =
     (if level = ''debug'' then DebugLevel else if level = ''warn'' then WarnLevel
      else if level = ''error'' then ErrorLevel else InfoLevel)"

section \<open>The shared ring\<close>

fun event_names :: "(bytes \<Rightarrow> NodeMeta option) \<Rightarrow> (int \<times> notification) list \<Rightarrow> string set" where
  "event_names unmarshal [] = {}"
| "event_names unmarshal ((now, Joined n) # evs) = insert (joined_id unmarshal n) (event_names unmarshal evs)"
| "event_names unmarshal ((now, Left n) # evs) = insert (ml_Name n) (event_names unmarshal evs)"
| "event_names unmarshal ((now, Updated n) # evs) = event_names unmarshal evs"

lemma notify_reach:
  assumes "ring_reach sha vn N (cm_ring m)" "event_names unmarshal evs \<subseteq> N"
  shows "ring_reach sha vn N (cm_ring (foldl (\<lambda>m ev. notify sha unmarshal ev m) m evs))"
  using assms
proof (induction unmarshal evs arbitrary: m rule: event_names.induct)
  case (2 unmarshal now n evs)
  have "ring_reach sha vn N (cm_ring (NotifyJoin sha unmarshal now n m))"
    using 2(2,3) by (simp add: notify_join_ring ring_add)
  then show ?case using 2(1,3) by (simp add: notify_def)
next
  case (3 unmarshal now n evs)
  have "cm_ring (NotifyLeave sha now n m) = snd (RemoveNode sha (ml_Name n) (cm_ring m))" by (simp add: NotifyLeave_def Let_def)
  then have "ring_reach sha vn N (cm_ring (NotifyLeave sha now n m))" using 3(2,3) by (simp add: ring_remove)
  then show ?case using 3(1,3) by (simp add: notify_def)
next
  case (4 unmarshal now n evs)
  have "notify sha unmarshal (now, Updated n) m = m" by (simp add: notify_def NotifyUpdate_def)
  then show ?case using 4 by simp
qed simp

definition run_events :: "digest \<Rightarrow> (bytes \<Rightarrow> NodeMeta option) \<Rightarrow> (int \<times> notification) list \<Rightarrow> 't Server \<Rightarrow> 't Server" where
  "run_events sha unmarshal evs s = foldl (\<lambda>s ev. server_notify sha unmarshal ev s) s evs"

lemma run_events_facts:
  "sv_cluster (run_events sha unmarshal evs s) = foldl (\<lambda>m ev. notify sha unmarshal ev m) (sv_cluster s) evs"
  "co_ring (hd_coordinator (sv_handlers s)) = cm_ring (sv_cluster s) \<Longrightarrow>
   co_ring (hd_coordinator (sv_handlers (run_events sha unmarshal evs s))) = cm_ring (sv_cluster (run_events sha unmarshal evs s))"
  "co_cfg (hd_coordinator (sv_handlers (run_events sha unmarshal evs s))) = co_cfg (hd_coordinator (sv_handlers s))"
  unfolding run_events_def by (induction evs arbitrary: s) (simp_all add: server_notify_def Let_def)

lemma started:
  assumes "server_start bt sha sorter unmarshal env cfg = Inr s"
  shows "ClusterManager_New sha unmarshal (st_split_addr env) (st_lookup_port env) (st_defaults env) (st_during env)
      (st_create_ok env) (cluster_config cfg) (NewRing DefaultVirtualNodes) = Inr (sv_cluster s)"
    "co_ring (hd_coordinator (sv_handlers s)) = cm_ring (sv_cluster s)"
    "co_cfg (hd_coordinator (sv_handlers s)) = replica_config cfg"
  using assms by (auto simp: server_start_def NewHandlers_def NewCoordinator_def split: prod.splits sum.splits)

lemma manager_started:
  assumes "ClusterManager_New sha unmarshal sa lp defaults during ok cc (NewRing vn) = Inr m"
    and "insert (cc_NodeID cc) (event_names unmarshal during) \<subseteq> N"
  shows "ring_reach sha vn N (cm_ring m)" "member_ids (cm_ring m) = insert (cc_NodeID cc) (view unmarshal {} during)"
    "length (cm_EventCh m) \<le> event_capacity"
proof -
  let ?m0 = "\<lparr>cm_ring = NewRing vn,
      cm_meta = \<lparr>nm_NodeID = cc_NodeID cc, nm_GRPCAddress = cc_GRPCAddress cc, nm_HTTPAddress = cc_HTTPAddress cc\<rparr>, cm_EventCh = []\<rparr>"
  let ?m1 = "foldl (\<lambda>m ev. notify sha unmarshal ev m) ?m0 during"
  have m: "m = ?m1\<lparr>cm_ring := AddNode sha (cc_NodeID cc) (cc_GRPCAddress cc) (cm_ring ?m1)\<rparr>"
    using assms(1) by (auto simp: ClusterManager_New_def Let_def split: sum.splits if_splits)
  have "ring_reach sha vn N (cm_ring ?m1)" using assms(2) by (intro notify_reach) (simp_all add: ring_new)
  then show "ring_reach sha vn N (cm_ring m)" using assms(2) by (simp add: m ring_add)
  show "member_ids (cm_ring m) = insert (cc_NodeID cc) (view unmarshal {} during)" "length (cm_EventCh m) \<le> event_capacity"
    using notify_view [of sha ?m0 unmarshal during] by (simp_all add: m ring_ok_new member_ids_new member_ids_add)
qed

lemma member_count: "ring_ok sha r \<Longrightarrow> Ring_Size r = int (card (member_ids r))"
  by (metis Ring_Size_def length_map list.set_map member_ids_def distinct_card ring_ok_def)

section \<open>Nodes and their addresses\<close>

lemma Ring_Nodes_map: "Ring_Nodes r = map snd (r_nodes r)"
  using foldl_map_snoc [of snd "[]" "r_nodes r"] by (simp add: Ring_Nodes_def case_prod_unfold)

lemma find_node:
  assumes "ring_ok sha r"
  shows "find (\<lambda>n. n_ID n = nid) (Ring_Nodes r) = map_of (r_nodes r) nid"
proof -
  have "\<forall>(k, n)\<in>set (r_nodes r). n_ID n = k"
    using assms ring_ok_member [OF assms] by (auto simp: ring_ok_def intro: map_of_is_SomeI)
  moreover have "(\<forall>(k, n)\<in>set xs. n_ID n = k) \<Longrightarrow> find (\<lambda>n. n_ID n = nid) (map snd xs) = map_of xs nid" for xs :: "(string \<times> Node) list"
    by (induction xs) auto
  ultimately show ?thesis by (simp add: Ring_Nodes_map)
qed

section \<open>Properties\<close>

text \<open>
  C10. A running node routes to the cluster's members: whatever notifications arrive after the start,
  as long as no two nodes collide on the ring, the replicas of every key are \<open>min N |members|\<close>
  different members, where the members are what the notifications say. This is the state in which
  the coordinator's properties hold.
\<close>

theorem server_routes_to_members:
  assumes "server_start bt sha sorter unmarshal env cfg = Inr s"
    and "insert (c_NodeID cfg) (event_names unmarshal (st_during env) \<union> event_names unmarshal evs) \<subseteq> N"
    and "no_collisions sha DefaultVirtualNodes N" "0 < c_ReplicationN cfg"
    and "members = view unmarshal (insert (c_NodeID cfg) (view unmarshal {} (st_during env))) evs" "members \<noteq> {}"
  shows "placed sha DefaultVirtualNodes N (hd_coordinator (sv_handlers (run_events sha unmarshal evs s))) \<and>
    (\<exists>ns. getReplicas sha (hd_coordinator (sv_handlers (run_events sha unmarshal evs s))) k = Some (Inr ns) \<and>
       n_ID ` set ns \<subseteq> members \<and> distinct (map n_ID ns) \<and> int (length ns) = min (c_ReplicationN cfg) (int (card members)))"
proof -
  let ?c = "hd_coordinator (sv_handlers (run_events sha unmarshal evs s))"
  note st = started [OF assms(1)]
  note mgr = manager_started [OF st(1), of N]
  have ring: "co_ring ?c = cm_ring (foldl (\<lambda>m ev. notify sha unmarshal ev m) (sv_cluster s) evs)" "co_cfg ?c = replica_config cfg"
    using run_events_facts [where sha = sha and unmarshal = unmarshal and evs = evs and s = s] st(2,3) by simp_all
  have reach: "ring_reach sha DefaultVirtualNodes N (co_ring ?c)"
    unfolding ring(1) using mgr(1) assms(2) by (intro notify_reach) (simp_all add: cluster_config_def)
  have mem: "member_ids (co_ring ?c) = members"
    using notify_view [of sha "sv_cluster s" unmarshal evs] mgr assms(2,5) ring_reach_ok [OF mgr(1)]
    by (simp add: ring(1) cluster_config_def)
  then have "r_nodes (co_ring ?c) \<noteq> []" using assms(6) by (auto simp: member_ids_def)
  then have p: "placed sha DefaultVirtualNodes N ?c"
    using reach assms(3,4) ring(2) by (simp add: placed_def replica_config_def)
  obtain ns where ns: "getReplicas sha ?c k = Some (Inr ns)" "distinct (map n_ID ns)"
      "int (length ns) = min (rc_N (co_cfg ?c)) (Ring_Size (co_ring ?c))"
    using getReplicas_placed [OF p] by blast
  have "n_ID ` set ns \<subseteq> members"
    using replicas_are_nodes [OF p ns(1)] mem by (force simp: member_ids_def dest: map_of_SomeD)
  then show ?thesis using p ns member_count [OF ring_reach_ok [OF reach]] mem ring(2) by (auto simp: replica_config_def)
qed

definition demo_start :: start_env where
  "demo_start = \<lparr>st_os = os_fine 1, st_snap = sn_fine, st_mkdir_ok = True, st_files = [], st_snaps = [],
     st_split_addr = (\<lambda>_. Some (''0.0.0.0'', ''7946'')), st_lookup_port = (\<lambda>_. Some 7946), st_defaults = demo_ml, st_during = [], st_create_ok = True\<rparr>"

lemma demo_started: "\<exists>s. server_start slist_ops toy_sha (\<lambda>es. es) (\<lambda>_. None) demo_start DefaultConfig = Inr s"
proof -
  have "\<exists>m. ClusterManager_New toy_sha (\<lambda>_. None) (\<lambda>_. Some (''0.0.0.0'', ''7946'')) (\<lambda>_. Some 7946) demo_ml [] True cc (NewRing vn) = Inr m" for cc vn
    by (simp add: ClusterManager_New_def gossip_config_def Let_def)
  from this [of "cluster_config DefaultConfig" DefaultVirtualNodes] show ?thesis
    using demo0_open by (auto simp: server_start_def demo_start_def)
qed

theorem server_routes_to_members_witness:
  "\<exists>s ns. server_start slist_ops toy_sha (\<lambda>es. es) (\<lambda>_. None) demo_start DefaultConfig = Inr s \<and>
     getReplicas toy_sha (hd_coordinator (sv_handlers (run_events toy_sha (\<lambda>_. None) [(1, Updated peer)] s))) ''k'' = Some (Inr ns) \<and>
     map n_ID ns = [''node-1'']"
proof -
  obtain s where s: "server_start slist_ops toy_sha (\<lambda>es. es) (\<lambda>_. None) demo_start DefaultConfig = Inr s" using demo_started by blast
  have c: "st_during demo_start = []" "c_NodeID DefaultConfig = ''node-1''" "c_ReplicationN DefaultConfig = 3"
    by (simp_all add: demo_start_def DefaultConfig_def)
  have nc: "no_collisions toy_sha DefaultVirtualNodes {''node-1''}" by (simp add: no_collisions_def)
  have h: "insert (c_NodeID DefaultConfig) (event_names (\<lambda>_. None) (st_during demo_start) \<union> event_names (\<lambda>_. None) [(1, Updated peer)]) \<subseteq> {''node-1''}"
      "0 < c_ReplicationN DefaultConfig" "{''node-1''} \<noteq> {}"
      "{''node-1''} = view (\<lambda>_. None) (insert (c_NodeID DefaultConfig) (view (\<lambda>_. None) {} (st_during demo_start))) [(1, Updated peer)]"
    by (simp_all only: c event_names.simps view.simps) simp_all
  obtain ns where ns: "getReplicas toy_sha (hd_coordinator (sv_handlers (run_events toy_sha (\<lambda>_. None) [(1, Updated peer)] s))) ''k'' = Some (Inr ns)"
      "n_ID ` set ns \<subseteq> {''node-1''}" "int (length ns) = min (c_ReplicationN DefaultConfig) (int (card {''node-1''}))"
    using server_routes_to_members [OF s h(1) nc h(2,4,3)] by blast
  then have "length ns = Suc 0" by (simp add: c)
  then have "map n_ID ns = [''node-1'']" using ns(2) by (auto simp: length_Suc_conv)
  with s ns(1) show ?thesis by (intro exI [of _ s] exI [of _ ns] conjI)
qed

text \<open>
  C39. Nodes call each other at the wrong address: a node announces an address for gRPC and one for
  HTTP, the ring keeps the first, and the coordinator's replicas, the delivery of hints and
  anti-entropy all use it for HTTP.
\<close>

theorem http_calls_use_grpc_address:
  assumes "ml_Meta n \<noteq> []" "unmarshal (ml_Meta n) = Some meta" "ring_ok sha (cm_ring (sv_cluster s))"
    and "s' = server_notify sha unmarshal (now, Joined n) s"
  shows "getAddress (cm_ring (sv_cluster s')) (nm_NodeID meta) = nm_GRPCAddress meta \<and>
    \<lparr>pi_NodeID = nm_NodeID meta, pi_HTTPAddress = nm_GRPCAddress meta\<rparr> \<in> set (getPeers (cm_ring (sv_cluster s'))) \<and>
    (placed sha vn N (hd_coordinator (sv_handlers s')) \<longrightarrow> getReplicas sha (hd_coordinator (sv_handlers s')) k = Some (Inr ns) \<longrightarrow>
       x \<in> set ns \<longrightarrow> n_ID x = nm_NodeID meta \<longrightarrow> n_Address x = nm_GRPCAddress meta)"
proof -
  let ?node = "\<lparr>n_ID = nm_NodeID meta, n_Address = nm_GRPCAddress meta\<rparr>"
  let ?r = "cm_ring (sv_cluster s')"
  have r: "?r = AddNode sha (nm_NodeID meta) (nm_GRPCAddress meta) (cm_ring (sv_cluster s))" "co_ring (hd_coordinator (sv_handlers s')) = ?r"
    using assms(1,2,4) by (simp_all add: server_notify_def notify_def Let_def NotifyJoin_def parseMeta_def emit_def)
  then have ok: "ring_ok sha ?r" using assms(3) by (simp add: ring_ok_add)
  have node: "map_of (r_nodes ?r) (nm_NodeID meta) = Some ?node" by (simp add: r(1) AddNode_sel AList.update_conv')
  have "getAddress ?r (nm_NodeID meta) = nm_GRPCAddress meta" by (simp add: getAddress_def find_node [OF ok] node)
  moreover have "?node \<in> set (Ring_Nodes ?r)" using map_of_SomeD [OF node] by (force simp: Ring_Nodes_map)
  then have "\<lparr>pi_NodeID = nm_NodeID meta, pi_HTTPAddress = nm_GRPCAddress meta\<rparr> \<in> set (getPeers ?r)"
    by (force simp: getPeers_def foldl_map_snoc)
  moreover have "n_Address x = nm_GRPCAddress meta"
    if "placed sha vn N (hd_coordinator (sv_handlers s'))" "getReplicas sha (hd_coordinator (sv_handlers s')) k = Some (Inr ns)"
      "x \<in> set ns" "n_ID x = nm_NodeID meta"
    using replicas_are_nodes [OF that(1-3)] that(4) node r(2) by auto
  ultimately show ?thesis by blast
qed

theorem http_calls_use_grpc_address_witness:
  "getAddress (cm_ring (sv_cluster (server_notify toy_sha (\<lambda>_. Some \<lparr>nm_NodeID = ''n2'', nm_GRPCAddress = ''h:50051'', nm_HTTPAddress = ''h:8080''\<rparr>)
     (1, Joined \<lparr>ml_Name = ''n2'', ml_Addr = ''h'', ml_Meta = ''m''\<rparr>)
     \<lparr>sv_cluster = \<lparr>cm_ring = NewRing 1, cm_meta = \<lparr>nm_NodeID = ''n1'', nm_GRPCAddress = [], nm_HTTPAddress = []\<rparr>, cm_EventCh = []\<rparr>,
      sv_handlers = serving\<rparr>))) ''n2'' = ''h:50051''"
proof -
  let ?meta = "\<lparr>nm_NodeID = ''n2'', nm_GRPCAddress = ''h:50051'', nm_HTTPAddress = ''h:8080''\<rparr>"
  let ?n = "\<lparr>ml_Name = ''n2'', ml_Addr = ''h'', ml_Meta = ''m''\<rparr>"
  have "ml_Meta ?n \<noteq> []" "(\<lambda>_. Some ?meta) (ml_Meta ?n) = Some ?meta" by simp_all
  from http_calls_use_grpc_address [OF this _ refl, where sha = toy_sha and now = 1 and
      s = "\<lparr>sv_cluster = \<lparr>cm_ring = NewRing 1, cm_meta = \<lparr>nm_NodeID = ''n1'', nm_GRPCAddress = [], nm_HTTPAddress = []\<rparr>, cm_EventCh = []\<rparr>,
        sv_handlers = serving\<rparr>"] show ?thesis by (simp add: ring_ok_new)
qed

end
