(* ===== verification/KV_Rest.thy ===== *)
theory KV_Rest
  imports KV_Handlers
begin

text \<open>
  Properties of the REST API: what a node's handler writes is what another node's client reads, which
  status each outcome gets, what a prefix scan finds, and the flag that should tell a client whether
  it sees its own write.
\<close>

section \<open>Documents on the wire\<close>

lemma names_kv [simp]: "\<not> names ''key'' ''status''" "\<not> names ''value'' ''status''" "\<not> names ''entries'' ''status''"
  by code_simp+

lemma decode_put_body: "decode_kv (put_body k v) = Some (utf8_coerce k, utf8_coerce v)"
  by (simp add: decode_kv_def put_body_def decode_struct_def kv_field_def jstring_def)

lemma decode_get_response:
  assumes "int64_range ts"
  shows "decode_get (APIResponse (Some (JObj [(''key'', jstring k), (''monotonic'', JBool m), (''read_your_write'', JBool y),
      (''timestamp'', JNum ts), (''value'', jstring d)])) []) = Some (utf8_coerce d, ts)"
  using assms by (simp add: decode_get_def APIResponse_def decode_struct_def data_field_def jstring_def)

section \<open>The coordinator's errors\<close>

lemma put_collect_error: "put_collect w acks lastErr rs = Some err \<Longrightarrow> \<exists>a b l. err = ErrInsufficientReplicas a b l"
  by (induction w acks lastErr rs rule: put_collect.induct) (auto split: option.splits if_splits)

lemma Coordinator_Put_error:
  "Coordinator_Put w sched cancelled k v level c = Some (Some err, c') \<Longrightarrow> \<not> errors_Is err x"
  by (auto simp: Coordinator_Put_def errors_Is_def Let_def dest!: put_collect_error split: option.splits sum.splits prod.splits)

lemma Coordinator_Delete_error:
  "Coordinator_Delete w sched cancelled k level c = Some (Some err, c') \<Longrightarrow> \<not> errors_Is err x"
  by (auto simp: Coordinator_Delete_def errors_Is_def Let_def split: option.splits sum.splits prod.splits if_splits)

section \<open>A node on its own\<close>

text \<open>When the local node is the only replica, the coordinator is the local engine.\<close>

lemma quorum_single: "quorumSizeFor cfg level 1 \<le> 1"
proof -
  have "n sdiv 2 \<le> (0 :: int)" if "n \<le> 1" for n
    using that by (cases "n = 1") (auto simp: signed_divide_int_def sgn_if)
  then show ?thesis by (auto simp: quorumSizeFor_def Let_def split: ConsistencyLevel.split)
qed

lemma schedule_single: "schedule sched \<Longrightarrow> sched [l] = [l]"
proof -
  assume "schedule sched"
  then have "mset (sched [l]) = {#l#}" by (simp add: schedule_def)
  then show "sched [l] = [l]" by simp
qed

lemma Coordinator_Put_single:
  assumes "getReplicas (wo_sha w) c k = Some (Inr [l])" "n_ID l = rc_NodeID (co_cfg c)" "schedule sched"
    and "Engine_Put (wo_bt w) (re_os (wo_env w l)) (re_now (wo_env w l)) k v (co_local c) = (None, e)"
  shows "Coordinator_Put w sched cancelled k v level c = Some (None, c\<lparr>co_local := e\<rparr>)"
  using assms quorum_single [of "co_cfg c" level]
  by (simp add: Coordinator_Put_def put_replica_def schedule_single Let_def)

lemma Coordinator_Get_single:
  assumes "getReplicas (wo_sha w) c k = Some (Inr [l])" "n_ID l = rc_NodeID (co_cfg c)" "schedule sched"
    and "fst (Engine_Get (wo_bt w) k (co_local c)) = Inr x"
  shows "\<exists>rep c'. Coordinator_Get w sched cancelled k level c = Some (Inr (v_Data x, v_Timestamp x), rep, c')"
proof -
  obtain e where "Engine_Get (wo_bt w) k (co_local c) = (Inr x, e)" using assms(4) by (metis prod.collapse)
  then show ?thesis using assms quorum_single [of "co_cfg c" level]
    by (simp add: Coordinator_Get_def get_replica_def schedule_single get_result_def filterFound_def latestValue_def Let_def)
qed

section \<open>Sessions of requests\<close>

lemma session_of_request:
  assumes "hr_header r ''X-Session-ID'' = sid" "sid \<noteq> []" "sessions_ok sm"
  obtains s sm1 where "sessionFromRequest ce r sm = ((s, sid), sm1)" "sessions_ok sm1" "find_session sid sm1 = Some s"
    "ss_LastWriteTS s = (case find_session sid sm of None \<Rightarrow> 0 | Some s0 \<Rightarrow> ss_LastWriteTS s0)"
proof -
  obtain s sm1 where g: "GetOrCreate (ce_now ce) (ce_random ce) sid sm = (s, sm1)" by (metis prod.exhaust)
  have ok: "sessions_ok sm1" using GetOrCreate_ok [OF assms(3), of "ce_now ce" "ce_random ce" sid] by (simp add: g)
  have f: "find_session sid sm1 = Some s" using find_GetOrCreate [OF assms(2), of "ce_now ce" "ce_random ce" sm] by (simp add: g)
  have "ss_LastWriteTS s = (case find_session sid sm of None \<Rightarrow> 0 | Some s0 \<Rightarrow> ss_LastWriteTS s0)"
    using g assms(2) by (auto simp: GetOrCreate_def Let_def find_session_def split: option.splits)
  then show thesis using that [of s sm1] ok f g assms(1) sessions_ok_ID [OF ok f] by (simp add: sessionFromRequest_def)
qed

section \<open>Prefixes\<close>

text \<open>The range from a prefix to the prefix followed by the largest byte.\<close>

lemma prefix_range:
  fixes p k :: string
  shows "p \<le> k \<and> k < p @ [CHR 0xFF] \<longleftrightarrow> (\<exists>s. k = p @ s \<and> (s = [] \<or> hd s \<noteq> CHR 0xFF))"
proof (induction p arbitrary: k)
  case Nil
  have top: "c < CHR 0xFF \<longleftrightarrow> c \<noteq> CHR 0xFF" for c :: char
  proof -
    have "of_char c < (256 :: nat)" by simp
    moreover have "of_char (CHR 0xFF) = (255 :: nat)" by simp
    moreover have "c = CHR 0xFF \<longleftrightarrow> of_char c = (255 :: nat)" by (metis char_of_char calculation(2))
    ultimately show ?thesis unfolding less_char_def by linarith
  qed
  show ?case by (cases k) (auto simp: top)
next
  case (Cons c p)
  show ?case
  proof (cases k)
    case (Cons d k')
    then show ?thesis using Cons.IH [of k'] by (auto)
  qed simp
qed

section \<open>Statuses\<close>

lemma put_status:
  assumes "HandlePut w errtext ce r h = Some (resp, h')"
  shows "case Option.bind (hr_body r) decode_kv of
      None \<Rightarrow> rs_status resp = 400 \<and> h' = h
    | Some (k, v) \<Rightarrow>
        if k = [] then rs_status resp = 400 \<and> h' = h
        else \<exists>err c. Coordinator_Put w (ce_sched ce) (ce_cancelled ce) k v (consistencyLevel r) (hd_coordinator h) = Some (err, c) \<and>
          hd_coordinator h' = c \<and> rs_status resp = (if err = None then 201 else 500)"
proof (cases "Option.bind (hr_body r) decode_kv")
  case None
  then show ?thesis using assms by (auto simp: HandlePut_def writeError_def)
next
  case (Some a)
  obtain k v where a: "a = (k, v)" by (cases a)
  show ?thesis
  proof (cases "k = []")
    case True
    then show ?thesis using assms Some a by (auto simp: HandlePut_def writeError_def)
  next
    case False
    obtain s sid sm where s: "sessionFromRequest ce r (hd_sessions h) = ((s, sid), sm)" by (metis prod.exhaust)
    let ?p = "Coordinator_Put w (ce_sched ce) (ce_cancelled ce) k v (consistencyLevel r) (hd_coordinator h)"
    obtain err c where p: "?p = Some (err, c)"
      using assms False by (cases ?p) (auto simp: HandlePut_def Some a s)
    then have "hd_coordinator h' = c \<and> rs_status resp = (if err = None then 201 else 500)"
      using assms False Coordinator_Put_error [of w "ce_sched ce" "ce_cancelled ce" k v "consistencyLevel r" "hd_coordinator h"]
      by (cases err) (auto simp: HandlePut_def Some a s writeError_def writeJSON_def Let_def)
    then show ?thesis using False p by (simp add: Some a)
  qed
qed

lemma delete_status:
  assumes "HandleDelete w errtext ce r h = Some (resp, h')"
  shows "\<exists>err c. Coordinator_Delete w (ce_sched ce) (ce_cancelled ce) (hr_key r) (consistencyLevel r) (hd_coordinator h) = Some (err, c) \<and>
     hd_coordinator h' = c \<and> hd_sessions h' = hd_sessions h \<and> rs_status resp = (if err = None then 200 else 500)"
proof -
  let ?p = "Coordinator_Delete w (ce_sched ce) (ce_cancelled ce) (hr_key r) (consistencyLevel r) (hd_coordinator h)"
  obtain err c where p: "?p = Some (err, c)" using assms by (cases ?p) (auto simp: HandleDelete_def)
  then have "hd_coordinator h' = c \<and> hd_sessions h' = hd_sessions h \<and> rs_status resp = (if err = None then 200 else 500)"
    using assms Coordinator_Delete_error [of w "ce_sched ce" "ce_cancelled ce" "hr_key r" "consistencyLevel r" "hd_coordinator h"]
    by (cases err) (auto simp: HandleDelete_def writeError_def writeJSON_def Let_def)
  with p show ?thesis by blast
qed

section \<open>A single node\<close>

text \<open>A node that knows of no other; \<open>solo e\<close> serves the engine \<open>e\<close>.\<close>

definition solo :: "Entry slist StorageEngine \<Rightarrow> Entry slist Handlers" where
  "solo e = NewHandlers (NewCoordinator (ReplConfig_Default\<lparr>rc_NodeID := ''b''\<rparr>) (NewRing 1) e) SessionManager_New None ''b''"

definition solo_request :: "string \<Rightarrow> json option \<Rightarrow> api_request" where
  "solo_request k b = \<lparr>hr_method = GET, hr_key = k, hr_query = (\<lambda>n. if n = ''prefix'' then k else []),
     hr_header = (\<lambda>_. ''s1''), hr_body = b\<rparr>"

definition solo_env :: call_env where
  "solo_env = \<lparr>ce_now = 1, ce_random = [], ce_sched = (\<lambda>ns. ns), ce_cancelled = False, ce_after = 5, ce_track_now = 6\<rparr>"

lemma solo_sel [simp]:
  "co_local (hd_coordinator (solo e)) = e" "hd_sessions (solo e) = SessionManager_New" "ce_sched solo_env = (\<lambda>ns. ns)"
  "ce_after solo_env = 5" "hr_key (solo_request k b) = k" "hr_body (solo_request k b) = b" "hr_header (solo_request k b) n = ''s1''"
  "hr_query (solo_request k b) ''prefix'' = k" "rc_NodeID (co_cfg (hd_coordinator (solo e))) = ''b''"
  by (simp_all add: solo_def NewHandlers_def NewCoordinator_def solo_env_def solo_request_def)

lemma solo_replicas: "getReplicas sha (hd_coordinator (solo e)) k = Some (Inr [\<lparr>n_ID = ''b'', n_Address = []\<rparr>])"
  by (simp add: getReplicas_def solo_def NewHandlers_def NewCoordinator_def Ring_Size_def NewRing_def ReplConfig_Default_def)

lemma demo_world_sel [simp]: "wo_bt demo_world = slist_ops" "re_os (wo_env demo_world x) = os_fine 4" "re_now (wo_env demo_world x) = 4"
  by (simp_all add: demo_world_def)

lemma sessions_ok_New: "sessions_ok SessionManager_New"
  by (simp add: sessions_ok_def SessionManager_New_def find_session_def)

section \<open>Properties\<close>

text \<open>
  C9. What one node answers is what the other one reads: a client that gets the response of
  \<open>HandleGet\<close> sees the value and timestamp the serving coordinator found, \<open>not found\<close> when it found
  none, and an error otherwise. The value passes through JSON, so bytes that are not UTF-8 are
  replaced; it arrives unchanged exactly when it is valid UTF-8.
\<close>

theorem remote_get_exact:
  assumes "Coordinator_Get w (ce_sched ce) (ce_cancelled ce) k (consistencyLevel r) (hd_coordinator h) = Some (ans, rep, c)"
    and "hr_key r = k" "case ans of Inr (d, ts) \<Rightarrow> int64_range ts | Inl err \<Rightarrow> True"
    and "HandleGet w errtext ce r h = Some (resp, rep', h')"
    and "net_url_ok net (''http://'' @ address @ ''/api/v1/kv/'' @ k)"
    and "net_do net \<lparr>rq_method = GET, rq_url = ''http://'' @ address @ ''/api/v1/kv/'' @ k, rq_body = None\<rparr> =
      HttpResponse (rs_status resp) (rs_body resp)"
  shows "RPC_Get net False address k =
      (case ans of
         Inr (d, ts) \<Rightarrow> Inr \<lparr>rv_NodeID = [], rv_Data = utf8_coerce d, rv_Timestamp = ts, rv_Found = True\<rparr>
       | Inl err \<Rightarrow> if err = ErrLocal ErrKeyNotFound then Inr \<lparr>rv_NodeID = [], rv_Data = [], rv_Timestamp = 0, rv_Found = False\<rparr>
                   else Inl (ErrStatus 500)) \<and>
    (utf8_coerce d0 = d0 \<longleftrightarrow> utf8_valid d0)"
proof -
  obtain s sid sm where s: "sessionFromRequest ce r (hd_sessions h) = ((s, sid), sm)" by (metis prod.exhaust)
  have "RPC_Get net False address k =
      (case ans of
         Inr (d, ts) \<Rightarrow> Inr \<lparr>rv_NodeID = [], rv_Data = utf8_coerce d, rv_Timestamp = ts, rv_Found = True\<rparr>
       | Inl err \<Rightarrow> if err = ErrLocal ErrKeyNotFound then Inr \<lparr>rv_NodeID = [], rv_Data = [], rv_Timestamp = 0, rv_Found = False\<rparr>
                   else Inl (ErrStatus 500))"
  proof (cases ans)
    case (Inl err)
    then have "rs_status resp = (if err = ErrLocal ErrKeyNotFound then 404 else 500)"
      using assms(1,2,4) s by (auto simp: HandleGet_def Let_def errors_Is_def writeError_def split: if_splits)
    then show ?thesis using Inl assms(5,6) by (simp add: RPC_Get_def client_do_def Let_def)
  next
    case (Inr a)
    obtain d ts where a: "a = (d, ts)" by (cases a)
    have "int64_range ts" using assms(3) by (simp add: Inr a)
    moreover have "rs_status resp = 200" "rs_body resp = Some (APIResponse (Some (JObj [(''key'', jstring k),
        (''monotonic'', JBool (CheckMonotonicRead (Some s) ts)), (''read_your_write'', JBool (CheckReadYourWrites (Some s) ts)),
        (''timestamp'', JNum ts), (''value'', jstring d)])) [])"
      using assms(1,2,4) s by (simp_all add: HandleGet_def Let_def Inr a writeJSON_def) (auto)
    ultimately show ?thesis using Inr a assms(5,6) by (simp add: RPC_Get_def client_do_def Let_def decode_get_response)
  qed
  then show ?thesis using utf8_coerce_iff by blast
qed

theorem remote_get_exact_witness:
  "\<exists>resp rep h'. HandleGet demo_world (\<lambda>_. []) solo_env (solo_request ''c'' None) (solo demo_local) = Some (resp, rep, h') \<and>
     RPC_Get \<lparr>net_url_ok = (\<lambda>_. True), net_do = (\<lambda>_. HttpResponse (rs_status resp) (rs_body resp))\<rparr> False ''hostb'' ''c'' =
       Inr \<lparr>rv_NodeID = [], rv_Data = utf8_coerce ''v'', rv_Timestamp = 4, rv_Found = True\<rparr> \<and> utf8_valid ''v''"
proof -
  let ?r = "solo_request ''c'' None" and ?h = "solo demo_local"
  obtain rep c where g: "Coordinator_Get demo_world (ce_sched solo_env) (ce_cancelled solo_env) ''c'' (consistencyLevel ?r) (hd_coordinator ?h) =
      Some (Inr (''v'', 4), rep, c)"
    using Coordinator_Get_single [of demo_world "hd_coordinator ?h" "''c''" _ "ce_sched solo_env"] demo_local_get
    by (force simp: solo_replicas)
  then obtain resp rep' h' where get: "HandleGet demo_world (\<lambda>_. []) solo_env ?r ?h = Some (resp, rep', h')"
    by (cases "sessionFromRequest solo_env ?r (hd_sessions ?h)") (auto simp: HandleGet_def Let_def)
  have "utf8_valid ''v''" by code_simp
  with get remote_get_exact [OF g _ _ get, of "\<lparr>net_url_ok = (\<lambda>_. True), net_do = (\<lambda>_. HttpResponse (rs_status resp) (rs_body resp))\<rparr>" "''hostb''"]
  show ?thesis by (simp add: int64_range_def)
qed

text \<open>
  C23. Status codes of writes: 400 exactly for a body that does not decode or has no key, and then
  nothing changes; 201 exactly when the coordinator reports success; 500 for everything else. A
  delete gets 200 or 500. The branch for an empty key is never taken: the coordinator does not wrap
  the engine's errors.
\<close>

theorem write_status_exact:
  assumes "HandlePut w errtext ce r h = Some (resp, h')" "HandleDelete w errtext ce' r' h = Some (resp', h'')"
  shows "(case Option.bind (hr_body r) decode_kv of
      None \<Rightarrow> rs_status resp = 400 \<and> h' = h
    | Some (k, v) \<Rightarrow>
        if k = [] then rs_status resp = 400 \<and> h' = h
        else \<exists>err c. Coordinator_Put w (ce_sched ce) (ce_cancelled ce) k v (consistencyLevel r) (hd_coordinator h) = Some (err, c) \<and>
          hd_coordinator h' = c \<and> rs_status resp = (if err = None then 201 else 500)) \<and>
    (\<exists>err c. Coordinator_Delete w (ce_sched ce') (ce_cancelled ce') (hr_key r') (consistencyLevel r') (hd_coordinator h) = Some (err, c) \<and>
       hd_coordinator h'' = c \<and> hd_sessions h'' = hd_sessions h \<and> rs_status resp' = (if err = None then 200 else 500))"
  using put_status [OF assms(1)] delete_status [OF assms(2)] by blast

theorem write_status_exact_witness:
  "\<exists>resp h' resp' h''. HandlePut demo_world (\<lambda>_. []) solo_env (solo_request [] (Some (put_body ''c'' ''v''))) (solo demo2) = Some (resp, h') \<and>
     HandleDelete demo_world (\<lambda>_. []) solo_env (solo_request [] None) (solo demo2) = Some (resp', h'') \<and>
     rs_status resp = 201 \<and> rs_status resp' \<in> {200, 500}"
proof -
  let ?r = "solo_request [] (Some (put_body ''c'' ''v''))" and ?r' = "solo_request [] None" and ?h = "solo demo2"
  have u: "utf8_coerce ''c'' = ''c''" "utf8_coerce ''v'' = ''v''" by code_simp+
  have p: "Coordinator_Put demo_world (ce_sched solo_env) (ce_cancelled solo_env) ''c'' ''v'' (consistencyLevel ?r) (hd_coordinator ?h) =
      Some (None, (hd_coordinator ?h)\<lparr>co_local := demo_local\<rparr>)"
    by (rule Coordinator_Put_single [OF solo_replicas]) (simp_all add: demo_local_put)
  then obtain resp h' where put: "HandlePut demo_world (\<lambda>_. []) solo_env ?r ?h = Some (resp, h')"
    by (cases "sessionFromRequest solo_env ?r (hd_sessions ?h)") (auto simp: HandlePut_def decode_put_body u Let_def)
  obtain err c where "Coordinator_Delete demo_world (ce_sched solo_env) (ce_cancelled solo_env) [] (consistencyLevel ?r') (hd_coordinator ?h) = Some (err, c)"
    by (cases "run_replicas (delete_replica demo_world (ce_cancelled solo_env) []) [\<lparr>n_ID = ''b'', n_Address = []\<rparr>] (hd_coordinator ?h)")
      (simp add: Coordinator_Delete_def solo_replicas Let_def del: run_replicas.simps)
  then obtain resp' h'' where del: "HandleDelete demo_world (\<lambda>_. []) solo_env ?r' ?h = Some (resp', h'')"
    by (cases err) (auto simp: HandleDelete_def)
  from write_status_exact [OF put del] put del p show ?thesis by (auto simp: decode_put_body u split: if_splits)
qed

text \<open>
  C22. A prefix scan answers with the live entries, in key order, whose key is the prefix followed by
  nothing or by something that does not start with the byte 255; keys that go on with that byte are
  missed.
\<close>

theorem prefix_scan_exact:
  assumes "btree (wo_bt w) entryLess ok" "mt_ok (wo_bt w) ok (en_memtable (co_local (hd_coordinator h)))"
    and "\<not> en_closed (co_local (hd_coordinator h))" "hr_query r ''prefix'' = p"
  shows "\<exists>es. HandleScan w errtext r h = writeJSON [] 200 (JObj [(''count'', JNum (int (length es))),
      (''entries'', JArr (map (\<lambda>x. JObj [(''timestamp'', JNum (e_Timestamp x)), (''value'', jstring (e_Value x))]) es))]) \<and>
    sorted_wrt entryLess es \<and>
    set es = {x. Memtable_Get (wo_bt w) (en_memtable (co_local (hd_coordinator h))) (e_Key x) = Some x \<and>
      (\<exists>s. e_Key x = p @ s \<and> (s = [] \<or> hd s \<noteq> CHR 0xFF))}"
proof -
  let ?m = "en_memtable (co_local (hd_coordinator h))"
  let ?es = "Memtable_Scan (wo_bt w) ?m p (p @ [CHR 0xFF])"
  have "HandleScan w errtext r h = writeJSON [] 200 (JObj [(''count'', JNum (int (length ?es))),
      (''entries'', JArr (map (\<lambda>x. JObj [(''timestamp'', JNum (e_Timestamp x)), (''value'', jstring (e_Value x))]) ?es))])"
    using assms(3,4) by (simp add: HandleScan_def Engine_Scan_def Let_def scan_entry_def comp_def foldl_map_snoc)
  then show ?thesis
    using entry_tree.scan_lists_live [OF entry_tree.intro [OF assms(1)] assms(2), of p "p @ [CHR 0xFF]"] prefix_range [of p]
    by (intro exI [of _ ?es]) simp
qed

theorem prefix_scan_exact_witness:
  "\<exists>es. HandleScan demo_world (\<lambda>_. []) (solo_request ''b'' None) (solo demo3) = writeJSON [] 200 (JObj [(''count'', JNum (int (length es))),
      (''entries'', JArr (map (\<lambda>x. JObj [(''timestamp'', JNum (e_Timestamp x)), (''value'', jstring (e_Value x))]) es))]) \<and>
    mk_entry ''b'' ''yz'' 4 False \<in> set es"
proof -
  have g: "Memtable_Get slist_ops (en_memtable demo3) ''b'' = Some (mk_entry ''b'' ''yz'' 4 False)"
    unfolding demo_tables by code_simp
  have "\<not> en_closed demo3" using Engine_Put_success [OF demo3_put] by simp
  then show ?thesis
    using prefix_scan_exact [of demo_world "slist_inv entryLess" "solo demo3" "solo_request ''b'' None" "''b''" "\<lambda>_. []"]
      slist.btree_axioms demo_ok(3) g by auto
qed

text \<open>
  A client's own write looks stale to it: on a single node, after a successful put in a session,
  a get in the same session returns the value just written, but with \<open>read_your_write\<close> false
  whenever the clock moved between the engine's stamp and the one the handler tracks.
\<close>

theorem own_write_flagged_stale:
  assumes "btree (wo_bt w) entryLess ok" "mt_ok (wo_bt w) ok (en_memtable (co_local (hd_coordinator h)))" "sessions_ok (hd_sessions h)"
    and "getReplicas (wo_sha w) (hd_coordinator h) k = Some (Inr [l])" "n_ID l = rc_NodeID (co_cfg (hd_coordinator h))"
    and "schedule (ce_sched ce)" "schedule (ce_sched ce')"
    and "hr_body r = Some (put_body k v)" "utf8_valid k" "k \<noteq> []" "utf8_valid v" "hr_key r' = k"
    and "hr_header r ''X-Session-ID'' = sid" "hr_header r' ''X-Session-ID'' = sid" "sid \<noteq> []"
    and "fst (Engine_Put (wo_bt w) (re_os (wo_env w l)) (re_now (wo_env w l)) k v (co_local (hd_coordinator h))) = None"
    and "re_now (wo_env w l) < ce_after ce"
  shows "\<exists>resp h1 resp' rep h2 mono. HandlePut w errtext ce r h = Some (resp, h1) \<and> rs_status resp = 201 \<and>
    HandleGet w errtext ce' r' h1 = Some (resp', rep, h2) \<and>
    resp' = writeJSON [(''X-Session-ID'', sid)] 200 (JObj [(''key'', JStr k), (''monotonic'', JBool mono),
      (''read_your_write'', JBool False), (''timestamp'', JNum (re_now (wo_env w l))), (''value'', JStr v)])"
proof -
  let ?c = "hd_coordinator h"
  obtain e where e: "Engine_Put (wo_bt w) (re_os (wo_env w l)) (re_now (wo_env w l)) k v (co_local ?c) = (None, e)"
    using assms(16) by (metis prod.collapse)
  have get: "fst (Engine_Get (wo_bt w) k e) = Inr \<lparr>v_Data = v, v_Timestamp = re_now (wo_env w l)\<rparr>"
    using entry_tree.engine_put_get [OF entry_tree.intro [OF assms(1)] assms(2) e, of k] by simp
  obtain s sm where s: "sessionFromRequest ce r (hd_sessions h) = ((s, sid), sm)" "sessions_ok sm" "find_session sid sm = Some s"
    using session_of_request [OF assms(13,15,3)] by blast
  let ?sm = "TrackWrite (ce_track_now ce) sid (ce_after ce) sm"
  let ?h1 = "h\<lparr>hd_coordinator := ?c\<lparr>co_local := e\<rparr>, hd_sessions := ?sm\<rparr>"
  have "decode_kv (put_body k v) = Some (k, v)" using assms(9,11) by (simp add: decode_put_body utf8_coerce_id)
  then have put: "HandlePut w errtext ce r h = Some (writeJSON [(''X-Session-ID'', sid)] 201
      (JObj [(''key'', jstring k), (''status'', JStr ''ok''), (''timestamp'', JNum (ce_after ce))]), ?h1)"
    using Coordinator_Put_single [OF assms(4-6) e] assms(8,10) by (simp add: HandlePut_def s Let_def)
  have sm: "sessions_ok ?sm" "find_session sid ?sm =
      Some (s\<lparr>ss_LastWriteTS := max (ss_LastWriteTS s) (ce_after ce), ss_lastAccessed := ce_track_now ce\<rparr>)"
    using s(2,3) sessions_ok_ID [OF s(2,3)]
    by (simp_all add: find_TrackWrite) (simp add: TrackWrite_def find_session_def [symmetric] Let_def set_session_ok)
  obtain s' sm' where s': "sessionFromRequest ce' r' ?sm = ((s', sid), sm')" "ce_after ce \<le> ss_LastWriteTS s'"
    using session_of_request [OF assms(14,15) sm(1), of ce'] sm(2) by (metis option.case(2) max.cobounded2 Session.select_convs(2) Session.surjective Session.update_convs(2) Session.update_convs(5))
  obtain rep c' where g: "Coordinator_Get w (ce_sched ce') (ce_cancelled ce') k (consistencyLevel r') (?c\<lparr>co_local := e\<rparr>) =
      Some (Inr (v, re_now (wo_env w l)), rep, c')"
    using Coordinator_Get_single [of w "?c\<lparr>co_local := e\<rparr>" k l "ce_sched ce'"] assms(4,5,7) get by fastforce
  have "\<not> CheckReadYourWrites (Some s') (re_now (wo_env w l))" using s'(2) assms(17) by (simp add: CheckReadYourWrites_def)
  then show ?thesis
    using put g s'(1) assms(9,11,12) by (simp add: HandleGet_def Let_def writeJSON_def jstring_def utf8_coerce_id) blast
qed

theorem own_write_flagged_stale_witness:
  "\<exists>resp h1 resp' rep h2 mono.
     HandlePut demo_world (\<lambda>_. []) solo_env (solo_request [] (Some (put_body ''c'' ''v''))) (solo demo2) = Some (resp, h1) \<and> rs_status resp = 201 \<and>
     HandleGet demo_world (\<lambda>_. []) solo_env (solo_request ''c'' None) h1 = Some (resp', rep, h2) \<and>
     resp' = writeJSON [(''X-Session-ID'', ''s1'')] 200 (JObj [(''key'', JStr ''c''), (''monotonic'', JBool mono),
       (''read_your_write'', JBool False), (''timestamp'', JNum 4), (''value'', JStr ''v'')])"
proof -
  have u: "utf8_valid ''c''" "utf8_valid ''v''" by code_simp+
  show ?thesis
    using own_write_flagged_stale [of demo_world "slist_inv entryLess" "solo demo2" "''c''" "\<lparr>n_ID = ''b'', n_Address = []\<rparr>" solo_env solo_env
        "solo_request [] (Some (put_body ''c'' ''v''))" "''v''" "solo_request ''c'' None" "''s1''" "\<lambda>_. []"]
      slist.btree_axioms demo_ok(2) sessions_ok_New u demo_local_put by (simp add: solo_replicas)
qed

end
