(* ===== verification/KV_Cluster.thy ===== *)
theory KV_Cluster
  imports KV_Rest
begin

text \<open>
  Nodes that call each other. The coordinator sends replica requests to the public API of the other
  nodes, whose handlers pass them to their own coordinator, which again calls all replicas. The
  network of depth \<open>d\<close> answers requests whose handling needed at most \<open>d\<close> levels of nested requests:
  every request that is ever answered is answered at some depth. The client names no consistency
  level in its requests, so the handlers take the default, quorum.
\<close>

section \<open>The nested network\<close>

text \<open>What a request meets: the node's world, circumstances and state at that moment, and the request
  as the router hands it over. All of it may differ from request to request.\<close>

type_synonym 't site = "nat \<Rightarrow> http_request \<Rightarrow> ('t world \<times> call_env \<times> 't Handlers \<times> api_request) option"

definition answer :: "api_response \<Rightarrow> http_outcome" where
  "answer resp = HttpResponse (rs_status resp) (rs_body resp)"

definition serve ::
  "'t world \<Rightarrow> (coord_error \<Rightarrow> string) \<Rightarrow> call_env \<Rightarrow> 't Handlers \<Rightarrow> api_request \<Rightarrow> http_method \<Rightarrow> http_outcome" where
  "serve w errtext ce h r meth =
     (case meth of
        POST \<Rightarrow> (case HandlePut w errtext ce r h of None \<Rightarrow> HttpFailed | Some (resp, _) \<Rightarrow> answer resp)
      | GET \<Rightarrow> (case HandleGet w errtext ce r h of None \<Rightarrow> HttpFailed | Some (resp, _) \<Rightarrow> answer resp)
      | DELETE \<Rightarrow> (case HandleDelete w errtext ce r h of None \<Rightarrow> HttpFailed | Some (resp, _) \<Rightarrow> answer resp)
      | OPTIONS \<Rightarrow> HttpFailed)"

primrec cluster_net :: "'t site \<Rightarrow> (coord_error \<Rightarrow> string) \<Rightarrow> nat \<Rightarrow> network" where
  "cluster_net site errtext 0 = \<lparr>net_url_ok = (\<lambda>_. True), net_do = (\<lambda>_. HttpFailed)\<rparr>"
| "cluster_net site errtext (Suc d) =
     \<lparr>net_url_ok = (\<lambda>_. True),
      net_do = (\<lambda>req. case site d req of
                        None \<Rightarrow> HttpFailed
                      | Some (w, ce, h, r) \<Rightarrow> serve (w\<lparr>wo_net := cluster_net site errtext d\<rparr>) errtext ce h r (rq_method req))\<rparr>"

text \<open>A node of a cluster in which every key has at least two replicas.\<close>

definition replicated :: "'t world \<Rightarrow> call_env \<Rightarrow> 't Handlers \<Rightarrow> bool" where
  "replicated w ce h \<longleftrightarrow> (\<exists>vn N. placed (wo_sha w) vn N (hd_coordinator h)) \<and> schedule (ce_sched ce) \<and>
     2 \<le> rc_N (co_cfg (hd_coordinator h)) \<and> 2 \<le> Ring_Size (co_ring (hd_coordinator h))"

section \<open>A coordinator that reaches no other node\<close>

definition unreachable :: "network \<Rightarrow> bool \<Rightarrow> bool" where
  "unreachable net cancelled \<longleftrightarrow>
     (\<forall>a k v. RPC_Put net cancelled a k v \<noteq> None \<and> isl (RPC_Get net cancelled a k) \<and> RPC_Delete net cancelled a k \<noteq> None)"

lemma few_local:
  assumes "list_all2 (\<lambda>n r. n_ID n \<noteq> local \<longrightarrow> \<not> P r) ns rs" "distinct (map n_ID ns)"
  shows "length (filter P rs) \<le> 1"
proof -
  have "length (filter P rs) \<le> length (filter (\<lambda>n. n_ID n = local) ns)"
    using assms(1) by (induction rule: list_all2_induct) auto
  also have "\<dots> = card (set (filter (\<lambda>n. n_ID n = local) ns))"
    using assms(2) by (intro distinct_card [symmetric] distinct_filter) (simp add: distinct_map)
  also have "\<dots> \<le> 1"
  proof -
    have "inj_on n_ID (set (filter (\<lambda>n. n_ID n = local) ns))" using assms(2) by (auto simp: distinct_map inj_on_def)
    then have "card (set (filter (\<lambda>n. n_ID n = local) ns)) = card (n_ID ` set (filter (\<lambda>n. n_ID n = local) ns))"
      by (simp only: card_image)
    also have "\<dots> \<le> card {local}" by (rule card_mono) auto
    finally show ?thesis by simp
  qed
  finally show ?thesis .
qed

lemma replicated_facts:
  assumes "replicated w ce h" "level \<noteq> One"
  obtains ns where "getReplicas (wo_sha w) (hd_coordinator h) k = Some (Inr ns)" "distinct (map n_ID (ce_sched ce ns))"
    "length (ce_sched ce ns) = length ns" "2 \<le> length ns" "2 \<le> quorumSizeFor (co_cfg (hd_coordinator h)) level (int (length ns))"
proof -
  let ?c = "hd_coordinator h"
  obtain vn N where p: "placed (wo_sha w) vn N ?c" using assms(1) by (auto simp: replicated_def)
  obtain ns where ns: "getReplicas (wo_sha w) ?c k = Some (Inr ns)" "distinct (map n_ID ns)"
      "int (length ns) = min (rc_N (co_cfg ?c)) (Ring_Size (co_ring ?c))"
    using getReplicas_placed [OF p] by blast
  have s: "schedule (ce_sched ce)" and l: "2 \<le> int (length ns)" using assms(1) ns(3) by (auto simp: replicated_def)
  have "quorumSizeFor (co_cfg ?c) level (int (length ns)) = level_size level (int (length ns))"
    using l ns(3) by (intro quorumSizeFor_level) auto
  moreover have "2 \<le> level_size level (int (length ns))"
    using l assms(2) by (cases level) (auto simp: level_size_def sdiv_2_pos)
  moreover have "distinct (map n_ID (ce_sched ce ns))" using ns(2) s by (metis schedule_def mset_eq_imp_distinct_iff mset_map)
  ultimately show thesis using that [OF ns(1)] l schedule_facts(2) [OF s] by simp
qed

lemma put_unreachable:
  assumes "replicated w ce h" "level \<noteq> One" "unreachable (wo_net w) cancelled"
  shows "\<exists>err c'. Coordinator_Put w (ce_sched ce) cancelled k v level (hd_coordinator h) = Some (Some err, c')"
proof -
  let ?c = "hd_coordinator h"
  obtain ns where ns: "getReplicas (wo_sha w) ?c k = Some (Inr ns)" "distinct (map n_ID (ce_sched ce ns))"
      "2 \<le> quorumSizeFor (co_cfg ?c) level (int (length ns))"
    using replicated_facts [OF assms(1,2)] by metis
  obtain rs c' where r: "run_replicas (put_replica w cancelled k v) (ce_sched ce ns) ?c = (rs, c')" by (metis prod.exhaust)
  have "list_all2 (\<lambda>n r. n_ID n \<noteq> rc_NodeID (co_cfg ?c) \<longrightarrow> r \<noteq> None) (ce_sched ce ns) rs \<and> co_cfg c' = co_cfg ?c"
  proof (rule run_replicas_all [where I = "\<lambda>d. co_cfg d = co_cfg ?c", OF r refl])
    fix n :: Node and d :: "'a Coordinator" assume "co_cfg d = co_cfg ?c"
    moreover obtain e where "RPC_Put (wo_net w) cancelled (n_Address n) k v = Some e" using assms(3) by (force simp: unreachable_def)
    ultimately show "(n_ID n \<noteq> rc_NodeID (co_cfg ?c) \<longrightarrow> fst (put_replica w cancelled k v n d) \<noteq> None) \<and>
        co_cfg (snd (put_replica w cancelled k v n d)) = co_cfg ?c"
      using put_replica_cfg [of w cancelled k v n d] by (auto simp: put_replica_def Let_def split: prod.splits)
  qed
  then have "length (filter (\<lambda>r. r = None) rs) \<le> 1"
    using few_local [where P = "\<lambda>r. r = None", OF _ ns(2)] by blast
  then have "put_collect (quorumSizeFor (co_cfg ?c) level (int (length ns))) 0 None rs \<noteq> None"
    using ns(3) by (subst put_collect_iff) auto
  then show ?thesis using ns(1) r by (auto simp: Coordinator_Put_def Let_def)
qed

lemma delete_unreachable:
  assumes "replicated w ce h" "level \<noteq> One" "unreachable (wo_net w) cancelled"
  shows "\<exists>err c'. Coordinator_Delete w (ce_sched ce) cancelled k level (hd_coordinator h) = Some (Some err, c')"
proof -
  let ?c = "hd_coordinator h"
  obtain ns where ns: "getReplicas (wo_sha w) ?c k = Some (Inr ns)" "distinct (map n_ID (ce_sched ce ns))"
      "2 \<le> quorumSizeFor (co_cfg ?c) level (int (length ns))"
    using replicated_facts [OF assms(1,2)] by metis
  obtain rs c' where r: "run_replicas (delete_replica w cancelled k) (ce_sched ce ns) ?c = (rs, c')" by (metis prod.exhaust)
  have "list_all2 (\<lambda>n r. n_ID n \<noteq> rc_NodeID (co_cfg ?c) \<longrightarrow> r \<noteq> None) (ce_sched ce ns) rs \<and> co_cfg c' = co_cfg ?c"
  proof (rule run_replicas_all [where I = "\<lambda>d. co_cfg d = co_cfg ?c", OF r refl])
    fix n :: Node and d :: "'a Coordinator" assume "co_cfg d = co_cfg ?c"
    then show "(n_ID n \<noteq> rc_NodeID (co_cfg ?c) \<longrightarrow> fst (delete_replica w cancelled k n d) \<noteq> None) \<and>
        co_cfg (snd (delete_replica w cancelled k n d)) = co_cfg ?c"
      using assms(3) by (auto simp: delete_replica_def unreachable_def split: prod.splits)
  qed
  then have few: "length (filter (\<lambda>r. r = None) rs) \<le> 1"
    using few_local [where P = "\<lambda>r. r = None", OF _ ns(2)] by blast
  have "foldl (\<lambda>acks r. if r = None then acks + 1 else acks) a rs = a + int (length (filter (\<lambda>r. r = None) rs))" for a
    by (induction rs arbitrary: a) auto
  then show ?thesis using ns(1,3) r few by (auto simp: Coordinator_Delete_def Let_def)
qed

lemma get_unreachable:
  assumes "replicated w ce h" "level \<noteq> One" "unreachable (wo_net w) cancelled"
  shows "\<exists>err rep c'. Coordinator_Get w (ce_sched ce) cancelled k level (hd_coordinator h) = Some (Inl err, rep, c') \<and>
    err \<noteq> ErrLocal ErrKeyNotFound"
proof -
  let ?c = "hd_coordinator h"
  obtain ns where ns: "getReplicas (wo_sha w) ?c k = Some (Inr ns)" "distinct (map n_ID (ce_sched ce ns))"
      "length (ce_sched ce ns) = length ns" "2 \<le> length ns" "2 \<le> quorumSizeFor (co_cfg ?c) level (int (length ns))"
    by (rule replicated_facts [OF assms(1,2)])
  let ?q = "quorumSizeFor (co_cfg ?c) level (int (length ns))"
  obtain rs c' where r: "run_replicas (get_replica w cancelled k) (ce_sched ce ns) ?c = (rs, c')" by (metis prod.exhaust)
  have all: "list_all2 (\<lambda>n r. (n_ID n \<noteq> rc_NodeID (co_cfg ?c) \<longrightarrow> isl r) \<and> r \<noteq> Inl (ErrLocal ErrKeyNotFound)) (ce_sched ce ns) rs \<and>
      co_cfg c' = co_cfg ?c"
  proof (rule run_replicas_all [where I = "\<lambda>d. co_cfg d = co_cfg ?c", OF r refl])
    fix n :: Node and d :: "'a Coordinator" assume d: "co_cfg d = co_cfg ?c"
    have "isl (RPC_Get (wo_net w) cancelled (n_Address n) k)" using assms(3) by (simp add: unreachable_def)
    with d show "((n_ID n \<noteq> rc_NodeID (co_cfg ?c) \<longrightarrow> isl (fst (get_replica w cancelled k n d))) \<and>
        fst (get_replica w cancelled k n d) \<noteq> Inl (ErrLocal ErrKeyNotFound)) \<and> co_cfg (snd (get_replica w cancelled k n d)) = co_cfg ?c"
      using get_replica_answer(1) [of w cancelled k n d] get_replica_cfg(1) [of w cancelled k n d]
      by (cases "RPC_Get (wo_net w) cancelled (n_Address n) k") (simp_all add: get_replica_def)
  qed
  then have few: "length (filter (\<lambda>r. \<not> isl r) rs) \<le> 1"
    by (intro few_local [where P = "\<lambda>r. \<not> isl r" and local = "rc_NodeID (co_cfg ?c)", OF _ ns(2)])
      (rule list_all2_mono [OF conjunct1], assumption, simp)
  have "length rs = length (ce_sched ce ns)" using list_all2_lengthD [OF conjunct1 [OF all]] by simp
  then have "filter (\<lambda>r. \<not> isl r) rs \<noteq> rs" using few ns(3,4) by auto
  then obtain x where "x \<in> set rs" "isl x" by (auto simp: filter_id_conv)
  then have "\<not> (\<forall>r\<in>set rs. \<exists>v. r = Inr v \<and> \<not> rv_Found v)" by (metis sum.disc(2))
  moreover have "Inl (ErrLocal ErrKeyNotFound) \<notin> set rs"
  proof
    assume "Inl (ErrLocal ErrKeyNotFound) \<in> set rs"
    then obtain i where i: "i < length rs" "rs ! i = Inl (ErrLocal ErrKeyNotFound)" by (metis in_set_conv_nth)
    show False using list_all2_nthD2 [OF conjunct1 [OF all] i(1)] i(2) by simp
  qed
  ultimately have miss: "fst (get_result ?q ns (get_collect rs ([], None))) \<noteq> Inl (ErrLocal ErrKeyNotFound)"
    by (simp only: get_result_missing not_False_eq_True)
  obtain ans rep where g: "get_result ?q ns (get_collect rs ([], None)) = (ans, rep)" by (metis prod.exhaust)
  obtain err where "ans = Inl err"
  proof (cases ans)
    case (Inr a)
    then have "?q \<le> int (length (filter (\<lambda>r. \<not> isl r) rs))"
      using get_result_success [of ?q ns rs "fst a" "snd a" rep] g by simp
    then show thesis using few ns(5) by simp
  qed
  with g miss show ?thesis using ns(1) r by (simp add: Coordinator_Get_def Let_def)
qed

text \<open>At every depth a call from node to node fails.\<close>

definition sound_site :: "'t site \<Rightarrow> bool" where
  "sound_site site \<longleftrightarrow> (\<forall>d req w ce h r. site d req = Some (w, ce, h, r) \<longrightarrow>
     replicated w ce h \<and> consistencyLevel r \<noteq> One)"

lemma replicated_net [simp]: "replicated (w\<lparr>wo_net := net\<rparr>) ce h = replicated w ce h"
  by (simp add: replicated_def)

lemma HandlePut_unreachable:
  assumes "replicated w ce h" "consistencyLevel r \<noteq> One" "unreachable (wo_net w) (ce_cancelled ce)"
  shows "\<exists>resp h'. HandlePut w errtext ce r h = Some (resp, h') \<and> 400 \<le> rs_status resp"
proof (cases "Option.bind (hr_body r) decode_kv")
  case None
  then show ?thesis by (simp add: HandlePut_def writeError_def)
next
  case (Some a)
  obtain s sid sm where s: "sessionFromRequest ce r (hd_sessions h) = ((s, sid), sm)" by (metis prod.exhaust)
  show ?thesis
    using put_unreachable [OF assms, of "fst a" "snd a"] Some s by (cases a) (auto simp: HandlePut_def writeError_def)
qed

lemma HandleDelete_unreachable:
  assumes "replicated w ce h" "consistencyLevel r \<noteq> One" "unreachable (wo_net w) (ce_cancelled ce)"
  shows "\<exists>resp h'. HandleDelete w errtext ce r h = Some (resp, h') \<and> 400 \<le> rs_status resp"
  using delete_unreachable [OF assms, of "hr_key r"] by (auto simp: HandleDelete_def Let_def writeError_def)

lemma HandleGet_unreachable:
  assumes "replicated w ce h" "consistencyLevel r \<noteq> One" "unreachable (wo_net w) (ce_cancelled ce)"
  shows "\<exists>resp rep h'. HandleGet w errtext ce r h = Some (resp, rep, h') \<and> rs_status resp = 500"
proof -
  obtain s sid sm where s: "sessionFromRequest ce r (hd_sessions h) = ((s, sid), sm)" by (metis prod.exhaust)
  show ?thesis
    using get_unreachable [OF assms, of "hr_key r"] s by (auto simp: HandleGet_def Let_def errors_Is_def writeError_def)
qed

lemma nested_unreachable:
  assumes "sound_site site"
  shows "unreachable (cluster_net site errtext d) cancelled"
proof (induction d arbitrary: cancelled)
  case 0
  show ?case by (simp add: unreachable_def RPC_Put_def RPC_Get_def RPC_Delete_def client_do_def)
next
  case (Suc d)
  show ?case
  proof (cases cancelled)
    case True
    then show ?thesis by (simp add: unreachable_def RPC_Put_def RPC_Get_def RPC_Delete_def client_do_def)
  next
    case False
    have st: "net_do (cluster_net site errtext (Suc d)) req = HttpFailed \<or>
        (\<exists>st b. net_do (cluster_net site errtext (Suc d)) req = HttpResponse st b \<and> 400 \<le> st \<and> (rq_method req = GET \<longrightarrow> st = 500))" for req
    proof (cases "site d req")
      case None
      then show ?thesis by simp
    next
      case (Some a)
      obtain w ce h r where a: "a = (w, ce, h, r)" by (cases a)
      let ?w = "w\<lparr>wo_net := cluster_net site errtext d\<rparr>"
      have "replicated ?w ce h" "consistencyLevel r \<noteq> One" using assms Some a unfolding sound_site_def by auto
      moreover have "unreachable (wo_net ?w) (ce_cancelled ce)" using Suc.IH by simp
      ultimately show ?thesis
        using HandlePut_unreachable [of ?w ce h r errtext] HandleGet_unreachable [of ?w ce h r errtext]
          HandleDelete_unreachable [of ?w ce h r errtext]
        by (cases "rq_method req") (auto simp: Some a serve_def answer_def)
    qed
    have "RPC_Put (cluster_net site errtext (Suc d)) cancelled a k v \<noteq> None" for a k v
      using st [of "\<lparr>rq_method = POST, rq_url = ''http://'' @ a @ ''/api/v1/kv'', rq_body = Some (put_body k v)\<rparr>"] False
      by (auto simp: RPC_Put_def client_do_def Let_def simp del: cluster_net.simps split: http_outcome.splits)
    moreover have "RPC_Delete (cluster_net site errtext (Suc d)) cancelled a k \<noteq> None" for a k
      using st [of "\<lparr>rq_method = DELETE, rq_url = ''http://'' @ a @ ''/api/v1/kv/'' @ k, rq_body = None\<rparr>"] False
      by (auto simp: RPC_Delete_def client_do_def Let_def simp del: cluster_net.simps split: http_outcome.splits)
    moreover have "isl (RPC_Get (cluster_net site errtext (Suc d)) cancelled a k)" for a k
      using st [of "\<lparr>rq_method = GET, rq_url = ''http://'' @ a @ ''/api/v1/kv/'' @ k, rq_body = None\<rparr>"] False
      by (auto simp: RPC_Get_def client_do_def Let_def simp del: cluster_net.simps split: http_outcome.splits)
    ultimately show ?thesis by (simp add: unreachable_def del: cluster_net.simps)
  qed
qed

section \<open>Properties\<close>



end
