(* ===== verification/KV_Grpc.thy ===== *)
theory KV_Grpc
  imports KV_StorageOps
begin

text \<open>
  \<open>api/grpc/handlers.go\<close>: the gRPC service over the local engine. The consistency levels of the
  requests are carried but not used, as in the code.
\<close>

section \<open>Messages\<close>

datatype grpc_level = ConsistencyLevel_ONE | ConsistencyLevel_QUORUM | ConsistencyLevel_ALL | ConsistencyLevel_other int

record PutRequest =
  pq_Key :: string
  pq_Value :: bytes
  pq_Consistency :: grpc_level

record PutResponse = pr_Timestamp :: int

record GetRequest =
  gq_Key :: string
  gq_Consistency :: grpc_level

record GetResponse =
  gr_Key :: string
  gr_Value :: bytes
  gr_Timestamp :: int

record DeleteRequest =
  dq_Key :: string
  dq_Consistency :: grpc_level

record DeleteResponse = dr_Success :: bool

record ScanRequest =
  sq_StartKey :: string
  sq_EndKey :: string
  sq_Limit :: "32 word"

record ScanResponse = sr_Entries :: "GetResponse list"

datatype grpc_code = NotFound | InvalidArgument | Unavailable | Internal

section \<open>Handlers\<close>

definition storageErrToGRPC :: "kv_error \<Rightarrow> grpc_code" where
  "storageErrToGRPC err =
     (if err = ErrKeyNotFound then NotFound
      else if err = ErrEmptyKey then InvalidArgument
      else if err = ErrEngineClosed then Unavailable
      else Internal)"

definition grpc_Put ::
  "(Entry, 't) btree_ops \<Rightarrow> os_env \<Rightarrow> int \<Rightarrow> PutRequest \<Rightarrow> 't StorageEngine \<Rightarrow> (grpc_code + PutResponse) \<times> 't StorageEngine" where
  "grpc_Put bt os now req e =
     (case Engine_Put bt os now (pq_Key req) (pq_Value req) e of
        (Some err, e1) \<Rightarrow> (Inl (storageErrToGRPC err), e1)
      | (None, e1) \<Rightarrow> (Inr \<lparr>pr_Timestamp = 0\<rparr>, e1))"

definition grpc_Get ::
  "(Entry, 't) btree_ops \<Rightarrow> GetRequest \<Rightarrow> 't StorageEngine \<Rightarrow> (grpc_code + GetResponse) \<times> 't StorageEngine" where
  "grpc_Get bt req e =
     (case Engine_Get bt (gq_Key req) e of
        (Inl err, e1) \<Rightarrow> (Inl (storageErrToGRPC err), e1)
      | (Inr val, e1) \<Rightarrow> (Inr \<lparr>gr_Key = gq_Key req, gr_Value = v_Data val, gr_Timestamp = v_Timestamp val\<rparr>, e1))"

definition grpc_Delete ::
  "(Entry, 't) btree_ops \<Rightarrow> os_env \<Rightarrow> int \<Rightarrow> DeleteRequest \<Rightarrow> 't StorageEngine \<Rightarrow> (grpc_code + DeleteResponse) \<times> 't StorageEngine" where
  "grpc_Delete bt os now req e =
     (case Engine_Delete bt os now (dq_Key req) e of
        (Some err, e1) \<Rightarrow> (Inl (storageErrToGRPC err), e1)
      | (None, e1) \<Rightarrow> (Inr \<lparr>dr_Success = True\<rparr>, e1))"

definition grpc_Scan :: "(Entry, 't) btree_ops \<Rightarrow> ScanRequest \<Rightarrow> 't StorageEngine \<Rightarrow> grpc_code + ScanResponse" where
  "grpc_Scan bt req e =
     (let last = (if sq_EndKey req = [] then sq_StartKey req @ [CHR 0xFF] else sq_EndKey req)
      in case Engine_Scan bt (sq_StartKey req) last e of
           Inl err \<Rightarrow> Inl (storageErrToGRPC err)
         | Inr vals \<Rightarrow>
             (let limit0 = sint (sq_Limit req);
                  limit = (if limit0 \<le> 0 then 1000 else limit0);
                  vals1 = (if limit < int (length vals) then take (nat limit) vals else vals)
              in Inr \<lparr>sr_Entries = foldl (\<lambda>out v. out @ [\<lparr>gr_Key = [], gr_Value = v_Data v, gr_Timestamp = v_Timestamp v\<rparr>]) [] vals1\<rparr>))"

section \<open>The limit\<close>

lemma sint32:
  fixes w :: "32 word"
  shows "sint w = (if uint w < 2 ^ 31 then uint w else uint w - 2 ^ 32)"
proof -
  have b: "0 \<le> uint w" "uint w < 2 ^ 32" using uint_lt2p [of w] by simp_all
  show ?thesis
  proof (cases "uint w < 2 ^ 31")
    case True
    have "- (2 ^ 31) \<le> uint w" by (rule order_trans [OF _ b(1)]) simp
    then have "signed_take_bit 31 (uint w) = uint w" using True by (rule signed_take_bit_int_eq_self)
    then show ?thesis using True by (simp add: sint_uint)
  next
    case False
    then have "uint w div 2 ^ 31 = 1" using b by (simp add: div_pos_geq)
    then have "bit (uint w) 31" by (simp add: bit_iff_odd)
    moreover have "take_bit 32 (uint w) = uint w" using b by (simp add: take_bit_int_eq_self)
    ultimately show ?thesis using False by (simp add: sint_uint signed_take_bit_eq_take_bit_minus)
  qed
qed

lemma scan_limit_unat:
  fixes w :: "32 word"
  shows "nat (if sint w \<le> 0 then 1000 else sint w) = (if w = 0 \<or> 2 ^ 31 \<le> unat w then 1000 else unat w)"
proof -
  obtain n where n: "unat w = n" by simp
  then have u: "uint w = int n" by (metis uint_nat)
  have "n < 2 ^ 32" using uint_lt2p [of w] by (simp add: u)
  moreover have "w = 0 \<longleftrightarrow> n = 0" using n unat_eq_0 by metis
  ultimately show ?thesis unfolding sint32 u n by (auto split: if_splits)
qed

section \<open>Properties\<close>



text \<open>
  Error codes: a get fails with \<open>NotFound\<close> exactly when the open engine has no live entry for the
  key, and with \<open>Unavailable\<close> exactly when it is closed; a put of an empty key is an invalid argument,
  and other failures of the log are internal. A successful put answers with timestamp 0 whatever the
  engine stored.
\<close>

theorem grpc_codes_exact:
  "(fst (grpc_Get bt greq e) = Inl NotFound \<longleftrightarrow> \<not> en_closed e \<and> Memtable_Get bt (en_memtable e) (gq_Key greq) = None) \<and>
   (fst (grpc_Get bt greq e) = Inl Unavailable \<longleftrightarrow> en_closed e) \<and>
   (fst (grpc_Put bt os now preq e) = Inl InvalidArgument \<longleftrightarrow> \<not> en_closed e \<and> pq_Key preq = []) \<and>
   (fst (grpc_Put bt os now preq e) = Inl Unavailable \<longleftrightarrow> en_closed e) \<and>
   (isl (fst (grpc_Put bt os now preq e)) \<or> fst (grpc_Put bt os now preq e) = Inr \<lparr>pr_Timestamp = 0\<rparr>)"
proof -
  have "(fst (grpc_Get bt greq e) = Inl NotFound \<longleftrightarrow> \<not> en_closed e \<and> Memtable_Get bt (en_memtable e) (gq_Key greq) = None) \<and>
      (fst (grpc_Get bt greq e) = Inl Unavailable \<longleftrightarrow> en_closed e)"
    by (auto simp: grpc_Get_def Engine_Get_def storageErrToGRPC_def Let_def split: option.split)
  moreover have "(fst (grpc_Put bt os now preq e) = Inl InvalidArgument \<longleftrightarrow> \<not> en_closed e \<and> pq_Key preq = []) \<and>
      (fst (grpc_Put bt os now preq e) = Inl Unavailable \<longleftrightarrow> en_closed e) \<and>
      (isl (fst (grpc_Put bt os now preq e)) \<or> fst (grpc_Put bt os now preq e) = Inr \<lparr>pr_Timestamp = 0\<rparr>)"
    by (auto simp: grpc_Put_def Engine_Put_def storageErrToGRPC_def Let_def split: prod.split option.split)
  ultimately show ?thesis by blast
qed

end
