(* ===== verification/KV_Node.thy ===== *)
theory KV_Node
  imports KV_Server KV_Cluster KV_Grpc
begin

text \<open>
  The node as a state machine: every handler that changes state, the background work (read repair,
  delivery of hints, the session reaper, snapshots), membership notifications and the shutdown are
  steps, in any order and with any answers of the environment. The shape of the state is an
  invariant of all of them.
\<close>

section \<open>Well-formed states\<close>

text \<open>A coordinator over the ring \<open>R\<close>: its engine's table and its hints are well-formed.\<close>

definition coord_ok :: "(Entry, 't) btree_ops \<Rightarrow> ('t \<Rightarrow> bool) \<Rightarrow> Ring \<Rightarrow> 't Coordinator \<Rightarrow> bool" where
  "coord_ok bt ok R c \<longleftrightarrow> mt_ok bt ok (en_memtable (co_local c)) \<and> hints_ok (co_hints c) \<and> co_ring c = R"

definition handlers_ok :: "(Entry, 't) btree_ops \<Rightarrow> ('t \<Rightarrow> bool) \<Rightarrow> Ring \<Rightarrow> 't Handlers \<Rightarrow> bool" where
  "handlers_ok bt ok R h \<longleftrightarrow> coord_ok bt ok R (hd_coordinator h) \<and> sessions_ok (hd_sessions h)"

section \<open>Steps\<close>

inductive node_step :: "(Entry, 't) btree_ops \<Rightarrow> 't Handlers \<Rightarrow> 't Handlers \<Rightarrow> bool" for bt where
  node_put: "HandlePut w errtext ce r h = Some (resp, h') \<Longrightarrow> wo_bt w = bt \<Longrightarrow> node_step bt h h'"
| node_get: "HandleGet w errtext ce r h = Some (resp, rep, h') \<Longrightarrow> wo_bt w = bt \<Longrightarrow> node_step bt h h'"
| node_delete: "HandleDelete w errtext ce r h = Some (resp, h') \<Longrightarrow> wo_bt w = bt \<Longrightarrow> node_step bt h h'"
| node_push: "HandleSyncPush bt env r h = (resp, h') \<Longrightarrow> node_step bt h h'"
| node_repair: "wo_bt w = bt \<Longrightarrow> node_step bt h (h\<lparr>hd_coordinator := readRepair w cancelled k rp (hd_coordinator h)\<rparr>)"
| node_deliver: "deliver_round bt env address (co_hints (hd_coordinator h), co_local (hd_coordinator h)) = (hh, e) \<Longrightarrow>
    node_step bt h (h\<lparr>hd_coordinator := (hd_coordinator h)\<lparr>co_hints := hh, co_local := e\<rparr>\<rparr>)"
| node_grpc_put: "grpc_Put bt os now preq (co_local (hd_coordinator h)) = (ans, e) \<Longrightarrow>
    node_step bt h (h\<lparr>hd_coordinator := (hd_coordinator h)\<lparr>co_local := e\<rparr>\<rparr>)"
| node_grpc_delete: "grpc_Delete bt os now dreq (co_local (hd_coordinator h)) = (ans', e) \<Longrightarrow>
    node_step bt h (h\<lparr>hd_coordinator := (hd_coordinator h)\<lparr>co_local := e\<rparr>\<rparr>)"
| node_snapshot: "node_step bt h (h\<lparr>hd_coordinator := (hd_coordinator h)\<lparr>co_local := takeSnapshot bt sn now (co_local (hd_coordinator h))\<rparr>\<rparr>)"
| node_reap: "node_step bt h (h\<lparr>hd_sessions := reap now (hd_sessions h)\<rparr>)"

inductive server_reach ::
  "(Entry, 't) btree_ops \<Rightarrow> digest \<Rightarrow> (bytes \<Rightarrow> NodeMeta option) \<Rightarrow> 't Server \<Rightarrow> bool" for bt sha unmarshal where
  server_started: "server_start bt sha sorter unmarshal env cfg = Inr s \<Longrightarrow> server_reach bt sha unmarshal s"
| server_handled: "server_reach bt sha unmarshal s \<Longrightarrow> node_step bt (sv_handlers s) h \<Longrightarrow>
    server_reach bt sha unmarshal (s\<lparr>sv_handlers := h\<rparr>)"
| server_notified: "server_reach bt sha unmarshal s \<Longrightarrow> server_reach bt sha unmarshal (server_notify sha unmarshal ev s)"
| server_stopped: "server_reach bt sha unmarshal s \<Longrightarrow> server_reach bt sha unmarshal (server_stop bt os sn now s)"

definition server_ok :: "(Entry, 't) btree_ops \<Rightarrow> ('t \<Rightarrow> bool) \<Rightarrow> digest \<Rightarrow> 't Server \<Rightarrow> bool" where
  "server_ok bt ok sha s \<longleftrightarrow> handlers_ok bt ok (cm_ring (sv_cluster s)) (sv_handlers s) \<and>
     ring_reach sha DefaultVirtualNodes UNIV (cm_ring (sv_cluster s)) \<and> length (cm_EventCh (sv_cluster s)) \<le> event_capacity"

section \<open>Every step keeps the shape\<close>

lemma sessions_ok_ops:
  assumes "sessions_ok m"
  shows "sessions_ok (TrackWrite now sid ts m)" "sessions_ok (TrackRead now sid ts m)"
    "sessions_ok (snd (sessionFromRequest ce r m))"
proof -
  show "sessions_ok (TrackWrite now sid ts m)" "sessions_ok (TrackRead now sid ts m)"
    using assms
    by (auto simp: TrackWrite_def TrackRead_def Let_def find_session_def [symmetric] sessions_ok_ID intro!: set_session_ok split: option.split)
  show "sessions_ok (snd (sessionFromRequest ce r m))"
    using GetOrCreate_ok [OF assms, of "ce_now ce" "ce_random ce" "hr_header r ''X-Session-ID''"]
    by (cases "GetOrCreate (ce_now ce) (ce_random ce) (hr_header r ''X-Session-ID'') m") (simp add: sessionFromRequest_def)
qed

lemma reap_ok:
  assumes "sessions_ok m"
  shows "sessions_ok (reap now m)"
proof -
  have "distinct (map fst ys) \<Longrightarrow>
      distinct (map fst (foldl (\<lambda>ys (sid, s). if ss_lastAccessed s < c then AList.delete sid ys else ys) ys xs))"
    for c and xs ys :: "(string \<times> Session) list"
    by (induction xs arbitrary: ys) (auto simp: AList.distinct_delete)
  then have "distinct (map fst (sm_sessions (reap now m)))"
    using assms by (simp add: reap_def Let_def reap_loop sessions_ok_def)
  moreover have "find_session sid (reap now m) = Some s \<Longrightarrow> find_session sid m = Some s" for sid s
    using find_reap [OF assms, of sid now] by (auto split: option.splits if_splits)
  ultimately show ?thesis using assms by (auto simp: sessions_ok_def)
qed

context entry_tree
begin

lemma engine_put_ok: "mt_ok bt ok (en_memtable e) \<Longrightarrow> mt_ok bt ok (en_memtable (snd (Engine_Put bt os now k v e)))"
  by (simp add: Engine_Put_def Let_def with_metrics_def put_ok split: prod.split option.split)

lemma engine_delete_ok: "mt_ok bt ok (en_memtable e) \<Longrightarrow> mt_ok bt ok (en_memtable (snd (Engine_Delete bt os now k e)))"
  by (simp add: Engine_Delete_def Let_def with_metrics_def delete_ok split: prod.split option.split)

lemma takeSnapshot_ok: "mt_ok bt ok (en_memtable e) \<Longrightarrow> mt_ok bt ok (en_memtable (takeSnapshot bt sn now e))"
  by (simp add: takeSnapshot_def write_snapshot_def Let_def split: prod.split option.split sum.split)

lemma push_entries_ok: "mt_ok bt ok (en_memtable e) \<Longrightarrow> mt_ok bt ok (en_memtable (push_entries bt envs es e))"
proof (induction es arbitrary: envs e)
  case (Cons x es)
  then show ?case by (cases envs; cases "hd envs"; cases x) (simp_all add: engine_put_ok)
qed simp

lemma Hint_Store_ok:
  "mt_ok bt ok (en_memtable e) \<Longrightarrow> hints_ok h \<Longrightarrow> Hint_Store bt marshal os now put_now nid k v (h, e) = (h', e') \<Longrightarrow>
   mt_ok bt ok (en_memtable e') \<and> hints_ok h'"
  using hints_ok_ops(2) [of h bt marshal os now put_now nid k v e] engine_put_ok [of e os put_now]
  by (auto simp: Hint_Store_def Let_def)

lemma deliver_loop_ok:
  "mt_ok bt ok (en_memtable e) \<Longrightarrow> mt_ok bt ok (en_memtable (snd (deliver_loop bt env nid hs (rem, e))))"
  by (induction hs arbitrary: rem e) (simp_all add: engine_delete_ok)

lemma Hint_Deliver_ok:
  assumes "mt_ok bt ok (en_memtable e)" "hints_ok h"
  shows "mt_ok bt ok (en_memtable (snd (Hint_Deliver bt env nid (h, e)))) \<and> hints_ok (fst (Hint_Deliver bt env nid (h, e)))"
  using deliver_loop_ok [OF assms(1), of env nid "pending h nid" "[]"] assms hints_ok_ops(3)
  by (auto simp: Hint_Deliver_def Let_def split: prod.split)

lemma deliver_round_ok:
  assumes "mt_ok bt ok (en_memtable e)" "hints_ok h"
  shows "mt_ok bt ok (en_memtable (snd (deliver_round bt env address (h, e)))) \<and> hints_ok (fst (deliver_round bt env address (h, e)))"
proof -
  let ?ok = "\<lambda>st. mt_ok bt ok (en_memtable (snd st)) \<and> hints_ok (fst st)"
  have "?ok st \<Longrightarrow> ?ok (foldl (\<lambda>st nid. if address nid = [] then st else Hint_Deliver bt (env nid) nid st) st ns)" for st ns
  proof (induction ns arbitrary: st)
    case (Cons n ns)
    then show ?case using Hint_Deliver_ok [of "snd st" "fst st" "env n" n] by simp
  qed simp
  then show ?thesis using assms by (simp add: deliver_round_def)
qed

lemma put_replica_ok:
  assumes "wo_bt w = bt" "coord_ok bt ok R c"
  shows "coord_ok bt ok R (snd (put_replica w cancelled k v x c))"
proof (cases "n_ID x = rc_NodeID (co_cfg c)")
  case True
  then show ?thesis
    using assms engine_put_ok [of "co_local c" "re_os (wo_env w x)" "re_now (wo_env w x)" k v]
    by (auto simp: put_replica_def Let_def coord_ok_def split: prod.split)
next
  case False
  obtain h e where h: "Hint_Store bt (wo_marshal w) (re_hint_os (wo_env w x)) (re_hint_now (wo_env w x)) (re_hint_put_now (wo_env w x))
      (n_ID x) k v (co_hints c, co_local c) = (h, e)" by (metis prod.exhaust)
  then show ?thesis
    using assms False Hint_Store_ok [OF _ _ h] by (auto simp: put_replica_def Let_def coord_ok_def split: option.split)
qed

lemma get_replica_ok:
  assumes "coord_ok bt ok R c"
  shows "coord_ok bt ok R (snd (get_replica w cancelled k x c))"
  using assms Engine_Get_table(1) [of "wo_bt w" k "co_local c"]
  by (cases "Engine_Get (wo_bt w) k (co_local c)") (auto simp: get_replica_def coord_ok_def split: sum.split)

lemma delete_replica_ok:
  assumes "wo_bt w = bt" "coord_ok bt ok R c"
  shows "coord_ok bt ok R (snd (delete_replica w cancelled k x c))"
  using assms engine_delete_ok [of "co_local c" "re_os (wo_env w x)" "re_now (wo_env w x)" k]
  by (auto simp: delete_replica_def coord_ok_def split: prod.split)

lemma run_ok:
  assumes "run_replicas f ns c = (rs, c')" "coord_ok bt ok R c" "\<And>n c. coord_ok bt ok R c \<Longrightarrow> coord_ok bt ok R (snd (f n c))"
  shows "coord_ok bt ok R c'"
  using run_replicas_all [where I = "coord_ok bt ok R" and P = "\<lambda>_ _. True", OF assms(1,2)] assms(3) by simp

lemma coordinator_ok:
  assumes "wo_bt w = bt" "coord_ok bt ok R c"
  shows "Coordinator_Put w sched cancelled k v level c = Some (err, c') \<Longrightarrow> coord_ok bt ok R c'"
    "Coordinator_Get w sched cancelled k level c = Some (ans, rep, c') \<Longrightarrow> coord_ok bt ok R c'"
    "Coordinator_Delete w sched cancelled k level c = Some (err, c') \<Longrightarrow> coord_ok bt ok R c'"
    "coord_ok bt ok R (readRepair w cancelled k rp c)"
proof -
  note put = run_ok [where f = "put_replica w cancelled k v", OF _ assms(2) put_replica_ok [OF assms(1)]]
    and get = run_ok [where f = "get_replica w cancelled k", OF _ assms(2) get_replica_ok]
    and del = run_ok [where f = "delete_replica w cancelled k", OF _ assms(2) delete_replica_ok [OF assms(1)]]
  show "coord_ok bt ok R c'" if "Coordinator_Put w sched cancelled k v level c = Some (err, c')"
    using that put assms(2)
    by (auto simp: Coordinator_Put_def Let_def split: option.splits sum.splits prod.splits)
  show "coord_ok bt ok R c'" if "Coordinator_Get w sched cancelled k level c = Some (ans, rep, c')"
    using that get assms(2)
    by (auto simp: Coordinator_Get_def Let_def split: option.splits sum.splits prod.splits)
  show "coord_ok bt ok R c'" if "Coordinator_Delete w sched cancelled k level c = Some (err, c')"
    using that del assms(2)
    by (auto simp: Coordinator_Delete_def Let_def split: option.splits sum.splits prod.splits)
  have step: "coord_ok bt ok R (repair_replica w cancelled k latest seen x d)" if "coord_ok bt ok R d" for latest seen x d
    using that engine_put_ok assms(1) by (simp add: repair_replica_def coord_ok_def split: option.split)
  have "coord_ok bt ok R d \<Longrightarrow> coord_ok bt ok R (foldl (\<lambda>c x. repair_replica w cancelled k latest seen x c) d ns)" for d latest seen ns
    by (induction ns arbitrary: d) (simp_all add: step)
  then show "coord_ok bt ok R (readRepair w cancelled k rp c)" using assms(2) by (simp add: readRepair_def Let_def split: prod.split)
qed

lemma Open_ok: "Engine_Open bt os sn mk cfg files snaps = (Inr e, files') \<Longrightarrow> mt_ok bt ok (en_memtable e)"
  by (auto simp: Engine_Open_def Let_def restore_feed replay_entries_ok table.good_feed table.good_new
      split: if_splits sum.splits option.splits prod.splits)

lemma node_step_ok:
  assumes "node_step bt h h'" "handlers_ok bt ok R h"
  shows "handlers_ok bt ok R h'"
  using assms
proof (induction rule: node_step.induct)
  case (node_put w errtext ce r h resp h')
  have c: "coord_ok bt ok R (hd_coordinator h)" and m: "sessions_ok (hd_sessions h)" using node_put(3) by (simp_all add: handlers_ok_def)
  have m': "sessions_ok (snd (sessionFromRequest ce r (hd_sessions h)))" by (rule sessions_ok_ops(3) [OF m])
  show ?case
    using node_put(1) c m m' sessions_ok_ops(1) [OF m'] coordinator_ok(1) [OF node_put(2) c]
    by (auto simp: HandlePut_def Let_def handlers_ok_def split: option.splits prod.splits if_splits)
next
  case (node_get w errtext ce r h resp rep h')
  have c: "coord_ok bt ok R (hd_coordinator h)" and m: "sessions_ok (hd_sessions h)" using node_get(3) by (simp_all add: handlers_ok_def)
  have m': "sessions_ok (snd (sessionFromRequest ce r (hd_sessions h)))" by (rule sessions_ok_ops(3) [OF m])
  show ?case
    using node_get(1) m' sessions_ok_ops(2) [OF m'] coordinator_ok(2) [OF node_get(2) c]
    by (auto simp: HandleGet_def Let_def handlers_ok_def split: option.splits prod.splits sum.splits)
next
  case (node_delete w errtext ce r h resp h')
  then show ?case
    using coordinator_ok(3) [OF node_delete(2), of R "hd_coordinator h"]
    by (auto simp: HandleDelete_def Let_def handlers_ok_def split: option.splits)
next
  case (node_push env r h resp h')
  then show ?case
    by (auto simp: HandleSyncPush_def Let_def handlers_ok_def coord_ok_def push_entries_ok split: option.splits)
next
  case (node_repair w h cancelled k rp)
  then show ?case by (simp add: handlers_ok_def coordinator_ok(4))
next
  case (node_deliver env address h hh e)
  then show ?case
    using deliver_round_ok [of "co_local (hd_coordinator h)" "co_hints (hd_coordinator h)" env address]
    by (simp add: handlers_ok_def coord_ok_def)
next
  case (node_grpc_put os now preq h ans e)
  then show ?case
    using engine_put_ok [of "co_local (hd_coordinator h)" os now "pq_Key preq" "pq_Value preq"]
    by (auto simp: grpc_Put_def handlers_ok_def coord_ok_def Let_def split: prod.splits option.splits if_splits)
next
  case (node_grpc_delete os now dreq h ans' e)
  then show ?case
    using engine_delete_ok [of "co_local (hd_coordinator h)" os now "dq_Key dreq"]
    by (auto simp: grpc_Delete_def handlers_ok_def coord_ok_def Let_def split: prod.splits option.splits if_splits)
next
  case (node_snapshot h sn now)
  then show ?case by (simp add: handlers_ok_def coord_ok_def takeSnapshot_ok)
next
  case (node_reap h now)
  then show ?case by (simp add: handlers_ok_def reap_ok)
qed

lemma server_reach_ok: "server_reach bt sha unmarshal s \<Longrightarrow> server_ok bt ok sha s"
proof (induction rule: server_reach.induct)
  case (server_started sorter env cfg s)
  have "\<exists>fs. Engine_Open bt (st_os env) (st_snap env) (st_mkdir_ok env) cfg (st_files env) (st_snaps env) =
      (Inr (co_local (hd_coordinator (sv_handlers s))), fs)"
    and e: "co_hints (hd_coordinator (sv_handlers s)) = NewHintedHandoff" "hd_sessions (sv_handlers s) = SessionManager_New"
    using server_started
    by (auto simp: server_start_def NewHandlers_def NewCoordinator_def split: prod.splits sum.splits)
  then have "mt_ok bt ok (en_memtable (co_local (hd_coordinator (sv_handlers s))))" using Open_ok by blast
  moreover have "sessions_ok SessionManager_New" by (simp add: sessions_ok_def SessionManager_New_def find_session_def)
  ultimately show ?case
    using manager_started [OF started(1) [OF server_started], of UNIV] started(2) [OF server_started] e
    by (simp add: server_ok_def handlers_ok_def coord_ok_def hints_ok_ops(1))
next
  case (server_handled s h)
  then show ?case using node_step_ok [OF server_handled(2)] by (simp add: server_ok_def)
next
  case (server_notified s ev)
  have r: "ring_reach sha DefaultVirtualNodes UNIV (cm_ring (sv_cluster s))" and l: "length (cm_EventCh (sv_cluster s)) \<le> event_capacity"
    using server_notified(2) by (simp_all add: server_ok_def)
  have "ring_reach sha DefaultVirtualNodes UNIV (cm_ring (notify sha unmarshal ev (sv_cluster s)))"
    "length (cm_EventCh (notify sha unmarshal ev (sv_cluster s))) \<le> event_capacity"
    using notify_reach [OF r, of unmarshal "[ev]"] notify_view [OF ring_reach_ok [OF r] l, of unmarshal "[ev]"] by simp_all
  with server_notified(2) show ?case by (simp add: server_ok_def server_notify_def Let_def handlers_ok_def coord_ok_def)
next
  case (server_stopped s os sn now)
  have "en_memtable (snd (Engine_Close bt os sn now e)) = en_memtable e" for e
    by (simp add: Engine_Close_def Let_def split: prod.split)
  with server_stopped(2) show ?case by (simp add: server_ok_def server_stop_def Let_def handlers_ok_def coord_ok_def)
qed

end

section \<open>Property\<close>

text \<open>
  C4. The state of a node is well-formed at every moment: from the start of \<open>main\<close> on whatever files,
  through any sequence of requests, background work, membership notifications and the shutdown,
  the table is sorted, its count exact up to wrap-around and its tombstones empty; the pending hints are kept in one
  list per node and the sessions under their own ids; the coordinator's ring is the one the cluster
  manager maintains, built by its operations; and the event channel is within its capacity.
\<close>

theorem server_state_ok:
  assumes "btree bt entryLess ok" "server_reach bt sha unmarshal s"
  shows "mt_ok bt ok (en_memtable (co_local (hd_coordinator (sv_handlers s)))) \<and>
    hints_ok (co_hints (hd_coordinator (sv_handlers s))) \<and> sessions_ok (hd_sessions (sv_handlers s)) \<and>
    co_ring (hd_coordinator (sv_handlers s)) = cm_ring (sv_cluster s) \<and>
    ring_reach sha DefaultVirtualNodes UNIV (cm_ring (sv_cluster s)) \<and>
    length (cm_EventCh (sv_cluster s)) \<le> event_capacity"
  using entry_tree.server_reach_ok [OF entry_tree.intro [OF assms(1)] assms(2)]
  by (simp add: server_ok_def handlers_ok_def coord_ok_def)

theorem server_state_ok_witness:
  "\<exists>s. server_start slist_ops toy_sha (\<lambda>es. es) (\<lambda>_. None) demo_start DefaultConfig = Inr s \<and>
     co_ring (hd_coordinator (sv_handlers (server_notify toy_sha (\<lambda>_. None) (1, Joined peer) s))) =
     cm_ring (sv_cluster (server_notify toy_sha (\<lambda>_. None) (1, Joined peer) s))"
proof -
  obtain s where s: "server_start slist_ops toy_sha (\<lambda>es. es) (\<lambda>_. None) demo_start DefaultConfig = Inr s" using demo_started by blast
  from server_state_ok [OF slist.btree_axioms server_notified [OF server_started [OF s], of "(1, Joined peer)"]] s
  show ?thesis by blast
qed

end
