(* ===== verification/KV_Cli.thy ===== *)
theory KV_Cli
  imports KV_Rpc
begin

text \<open>
  \<open>cmd/cli/main.go\<close>: the command line client. A run gives the requests it sends and the exit status;
  the texts it prints are left out. The arguments are those after the flags of the program itself,
  whose value \<open>base\<close> is the server's address.
\<close>

section \<open>Flags of scan\<close>

text \<open>\<open>FlagSet.Parse\<close> for the one string flag: \<open>Inl\<close> is the exit status it ends the program with.\<close>

definition strip_dashes :: "string \<Rightarrow> string option" where
  "strip_dashes s =
     (if length s < 2 \<or> hd s \<noteq> CHR ''-'' then None
      else if s ! 1 = CHR ''-'' then Some (drop 2 s) else Some (drop 1 s))"

definition split_flag :: "string \<Rightarrow> string \<times> string option" where
  "split_flag s =
     (let name = takeWhile (\<lambda>c. c \<noteq> CHR ''='') s
      in (name, if length name = length s then None else Some (drop (Suc (length name)) s)))"

fun parse_prefix :: "string list \<Rightarrow> string \<Rightarrow> int + string" where
  "parse_prefix [] prefix = Inr prefix"
| "parse_prefix (s # args) prefix =
     (case strip_dashes s of
        None \<Rightarrow> Inr prefix
      | Some flag \<Rightarrow>
          if s = ''--'' then Inr prefix
          else if flag = [] \<or> hd flag = CHR ''-'' \<or> hd flag = CHR ''='' then Inl 2
          else case split_flag flag of
            (name, value) \<Rightarrow>
              if name = ''prefix''
              then case value of
                     Some v \<Rightarrow> parse_prefix args v
                   | None \<Rightarrow> (case args of [] \<Rightarrow> Inl 2 | v # rest \<Rightarrow> parse_prefix rest v)
              else if name = ''help'' \<or> name = ''h'' then Inl 0
              else Inl 2)"

section \<open>Commands\<close>

text \<open>The exit status after a response: a transport error or a status from 400 on gives 1.\<close>

definition exit_status :: "http_outcome \<Rightarrow> int" where
  "exit_status out = (case out of HttpFailed \<Rightarrow> 1 | HttpResponse st _ \<Rightarrow> if 400 \<le> st then 1 else 0)"

definition cli_send :: "network \<Rightarrow> int \<Rightarrow> http_request \<Rightarrow> http_request list \<times> int" where
  "cli_send net bad_url req =
     (if \<not> net_url_ok net (rq_url req) then ([], bad_url) else ([req], exit_status (net_do net req)))"

definition cli_put :: "network \<Rightarrow> string \<Rightarrow> string \<Rightarrow> string \<Rightarrow> http_request list \<times> int" where
  "cli_put net base k v =
     cli_send net 1 \<lparr>rq_method = POST, rq_url = base @ ''/api/v1/kv'',
       rq_body = Some (JObj [(''key'', jstring k), (''value'', jstring v)])\<rparr>"

definition cli_get :: "network \<Rightarrow> string \<Rightarrow> string \<Rightarrow> http_request list \<times> int" where
  "cli_get net base k = cli_send net 1 \<lparr>rq_method = GET, rq_url = base @ ''/api/v1/kv/'' @ k, rq_body = None\<rparr>"

text \<open>The error of \<open>http.NewRequest\<close> is dropped; sending the missing request is a nil dereference, which
  ends the program with status 2.\<close>

definition cli_delete :: "network \<Rightarrow> string \<Rightarrow> string \<Rightarrow> http_request list \<times> int" where
  "cli_delete net base k = cli_send net 2 \<lparr>rq_method = DELETE, rq_url = base @ ''/api/v1/kv/'' @ k, rq_body = None\<rparr>"

definition cli_scan :: "network \<Rightarrow> string \<Rightarrow> string \<Rightarrow> http_request list \<times> int" where
  "cli_scan net base prefix =
     cli_send net 1 \<lparr>rq_method = GET, rq_url = base @ ''/api/v1/kv?prefix='' @ prefix, rq_body = None\<rparr>"

definition cli_health :: "network \<Rightarrow> string \<Rightarrow> http_request list \<times> int" where
  "cli_health net base = cli_send net 1 \<lparr>rq_method = GET, rq_url = base @ ''/api/v1/health'', rq_body = None\<rparr>"

definition cli_main :: "network \<Rightarrow> string \<Rightarrow> string list \<Rightarrow> http_request list \<times> int" where
  "cli_main net base args =
     (case args of
        [] \<Rightarrow> ([], 1)
      | cmd # rest \<Rightarrow>
          if cmd = ''put'' then (if length args < 3 then ([], 1) else cli_put net base (args ! 1) (args ! 2))
          else if cmd = ''get'' then (if length args < 2 then ([], 1) else cli_get net base (args ! 1))
          else if cmd = ''delete'' then (if length args < 2 then ([], 1) else cli_delete net base (args ! 1))
          else if cmd = ''scan'' then (case parse_prefix rest [] of Inl st \<Rightarrow> ([], st) | Inr p \<Rightarrow> cli_scan net base p)
          else if cmd = ''health'' then cli_health net base
          else ([], 1))"

section \<open>Properties\<close>

lemma send_status:
  "bad \<noteq> 0 \<Longrightarrow> snd (cli_send net bad req) = 0 \<longleftrightarrow>
     (\<exists>st b. fst (cli_send net bad req) = [req] \<and> net_do net req = HttpResponse st b \<and> st < 400)"
  by (auto simp: cli_send_def exit_status_def split: http_outcome.splits if_splits)

text \<open>
  The exit status tells whether the server accepted: for every command line except a request for
  help on \<open>scan\<close>, the status is 0 exactly when one request was sent and answered below 400; nothing is
  ever sent twice.
\<close>

theorem cli_exit_status:
  assumes "\<not> (args \<noteq> [] \<and> hd args = ''scan'' \<and> parse_prefix (tl args) [] = Inl 0)"
  shows "(snd (cli_main net base args) = 0 \<longleftrightarrow>
      (\<exists>req st b. fst (cli_main net base args) = [req] \<and> net_do net req = HttpResponse st b \<and> st < 400)) \<and>
    length (fst (cli_main net base args)) \<le> 1"
proof -
  have len: "length (fst (cli_send net bad req)) \<le> 1" for bad req by (simp add: cli_send_def)
  have ok: "(snd (cli_send net bad req) = 0 \<longleftrightarrow>
      (\<exists>r st b. fst (cli_send net bad req) = [r] \<and> net_do net r = HttpResponse st b \<and> st < 400)) \<and> length (fst (cli_send net bad req)) \<le> 1"
    if "bad \<noteq> 0" for bad req
    using send_status [OF that, of net req] len [of bad req] by (auto simp: cli_send_def split: if_splits)
  show ?thesis
  proof (cases args)
    case Nil
    then show ?thesis by (simp add: cli_main_def)
  next
    case (Cons cmd rest)
    consider "cmd = ''scan''" | "cmd \<noteq> ''scan''" by blast
    then show ?thesis
    proof cases
      case 1
      then show ?thesis using assms ok by (auto simp: Cons cli_main_def cli_scan_def split: sum.splits)
    next
      case 2
      then show ?thesis using ok by (simp add: Cons cli_main_def cli_put_def cli_get_def cli_delete_def cli_health_def)
    qed
  qed
qed

theorem cli_exit_status_witness:
  "snd (cli_main \<lparr>net_url_ok = (\<lambda>_. True), net_do = (\<lambda>_. HttpResponse 404 None)\<rparr> ''http://h'' [''get'', ''k'']) \<noteq> 0 \<and>
   length (fst (cli_main \<lparr>net_url_ok = (\<lambda>_. True), net_do = (\<lambda>_. HttpResponse 404 None)\<rparr> ''http://h'' [''get'', ''k''])) \<le> 1"
  using cli_exit_status [of "[''get'', ''k'']" "\<lparr>net_url_ok = (\<lambda>_. True), net_do = (\<lambda>_. HttpResponse 404 None)\<rparr>" "''http://h''"]
  by (simp del: One_nat_def)

end
