(* ===== verification/KV_Versioning.thy ===== *)
theory KV_Versioning
  imports KV_Prelude
begin

text \<open>
  \<open>versioning/vector_clock.go\<close> and \<open>versioning/conflict.go\<close>: vector clocks with wrapping
  \<open>uint64\<close> counters, their comparison, and the detection of conflicting versions. A Go map is
  an association list with distinct keys; the order of the list stands for the (unspecified)
  order of iteration, and the lemmas show that no result depends on it. The versions of
  \<open>Detect\<close> are pointers: a value with its address.
\<close>

section \<open>Vector clocks\<close>

datatype Ordering = Before | After | Concurrent | Equal

type_synonym VectorClock = "(string \<times> 64 word) list"

definition VectorClock_New :: VectorClock where
  "VectorClock_New = []"

text \<open>\<open>vc[k]\<close> is zero for a missing key.\<close>

definition vc_get :: "VectorClock \<Rightarrow> string \<Rightarrow> 64 word" where
  "vc_get vc k = (case map_of vc k of Some c \<Rightarrow> c | None \<Rightarrow> 0)"

definition vc_copy :: "VectorClock \<Rightarrow> VectorClock" where
  "vc_copy vc = foldl (\<lambda>out (k, v). AList.update k v out) [] vc"

definition Increment :: "VectorClock \<Rightarrow> string \<Rightarrow> VectorClock" where
  "Increment vc nodeID =
     (let next = vc_copy vc in AList.update nodeID (vc_get next nodeID + 1) next)"

definition Merge :: "VectorClock \<Rightarrow> VectorClock \<Rightarrow> VectorClock" where
  "Merge vc other =
     foldl (\<lambda>merged (nodeID, counter).
        if vc_get merged nodeID < counter then AList.update nodeID counter merged else merged)
       (vc_copy vc) other"

definition all_keys :: "VectorClock \<Rightarrow> VectorClock \<Rightarrow> string list" where
  "all_keys vc other =
     foldl (\<lambda>ks (k, _). List.insert k ks) (foldl (\<lambda>ks (k, _). List.insert k ks) [] vc) other"

definition Compare :: "VectorClock \<Rightarrow> VectorClock \<Rightarrow> Ordering" where
  "Compare vc other =
     (case foldl (\<lambda>(vcLessOther, otherLessVC) k.
              let a = vc_get vc k; b = vc_get other k
              in if a < b then (True, otherLessVC)
                 else if b < a then (vcLessOther, True)
                 else (vcLessOther, otherLessVC))
            (False, False) (all_keys vc other) of
        (vcLessOther, otherLessVC) \<Rightarrow>
          if \<not> vcLessOther \<and> \<not> otherLessVC then Equal
          else if vcLessOther \<and> \<not> otherLessVC then Before
          else if \<not> vcLessOther \<and> otherLessVC then After
          else Concurrent)"

definition HappensBefore :: "VectorClock \<Rightarrow> VectorClock \<Rightarrow> bool" where
  "HappensBefore vc other \<longleftrightarrow> Compare vc other = Before"

definition IsConcurrentWith :: "VectorClock \<Rightarrow> VectorClock \<Rightarrow> bool" where
  "IsConcurrentWith vc other \<longleftrightarrow> Compare vc other = Concurrent"

definition Clone :: "VectorClock \<Rightarrow> VectorClock" where
  "Clone vc = vc_copy vc"

section \<open>Conflict detection\<close>

record VersionedValue =
  vv_Data :: bytes
  vv_VectorClock :: VectorClock
  vv_Timestamp :: int
  vv_NodeID :: string

definition NewVersionedValue :: "bytes \<Rightarrow> string \<Rightarrow> VectorClock \<Rightarrow> int \<Rightarrow> VersionedValue" where
  "NewVersionedValue data nodeID clock now =
     \<lparr>vv_Data = data, vv_VectorClock = Increment clock nodeID, vv_Timestamp = now, vv_NodeID = nodeID\<rparr>"

type_synonym version = "nat \<times> VersionedValue"

definition clock_of :: "version \<Rightarrow> VectorClock" where
  "clock_of v = vv_VectorClock (snd v)"

text \<open>The inner loop of \<open>Detect\<close> for index \<open>i\<close>: it stops at the first dominating version.\<close>

definition dominated :: "version list \<Rightarrow> nat \<Rightarrow> bool" where
  "dominated versions i =
     list_ex (\<lambda>j. j \<noteq> i \<and> Compare (clock_of (versions ! i)) (clock_of (versions ! j)) = Before)
       [0..<length versions]"

definition heads_of :: "version list \<Rightarrow> version list" where
  "heads_of versions =
     foldl (\<lambda>heads i. if \<not> dominated versions i then heads @ [versions ! i] else heads) []
       [0..<length versions]"

definition lwwResolve :: "version list \<Rightarrow> version" where
  "lwwResolve versions =
     foldl (\<lambda>best v. if vv_Timestamp (snd best) < vv_Timestamp (snd v) then v else best)
       (hd versions) (tl versions)"

text \<open>\<open>lwwResolve(heads)\<close> reads \<open>versions[0]\<close>, which panics on an empty slice; the lemmas show
  that there always is a head.\<close>

definition Detect :: "version list \<Rightarrow> version option \<times> version list" where
  "Detect versions =
     (case versions of
        [] \<Rightarrow> (None, [])
      | [v] \<Rightarrow> (Some v, [])
      | _ \<Rightarrow>
          let heads = heads_of versions
          in if length heads = 1 then (Some (hd heads), [])
             else let winner = lwwResolve heads
                  in (Some winner,
                      foldl (\<lambda>siblings h. if fst h \<noteq> fst winner then siblings @ [h] else siblings) [] heads))"

section \<open>What the clock operations compute\<close>

lemma word_less_succ: "x \<noteq> - 1 \<Longrightarrow> x < x + (1 :: 64 word)"
proof -
  assume "x \<noteq> - 1"
  then have "unat x \<noteq> 2 ^ 64 - 1" by (auto simp: word_unat_eq_iff unsigned_minus_1_eq_mask mask_eq_exp_minus_1)
  then have "unat x + 1 < 2 ^ 64" using unsigned_less [of x, where 'a = nat] by simp
  then show ?thesis by (simp add: word_less_nat_alt unat_word_ariths)
qed

definition vc_ok :: "VectorClock \<Rightarrow> bool" where
  "vc_ok vc \<longleftrightarrow> distinct (map fst vc)"

text \<open>The pointwise order.\<close>

definition vc_le :: "VectorClock \<Rightarrow> VectorClock \<Rightarrow> bool" where
  "vc_le a b \<longleftrightarrow> (\<forall>k. vc_get a k \<le> vc_get b k)"

lemma vc_get_update [simp]: "vc_get (AList.update k v vc) k' = (if k' = k then v else vc_get vc k')"
  by (simp add: vc_get_def AList.update_conv')

lemma vc_get_Nil [simp]: "vc_get [] k = 0"
  by (simp add: vc_get_def)

lemma vc_get_Cons [simp]: "vc_get ((k, c) # vc) k' = (if k' = k then c else vc_get vc k')"
  by (auto simp: vc_get_def)

lemma vc_get_fresh: "k \<notin> fst ` set vc \<Longrightarrow> vc_get vc k = 0"
  by (simp add: vc_get_def map_of_eq_None_iff [THEN iffD2])

lemma vc_ok_update: "vc_ok vc \<Longrightarrow> vc_ok (AList.update k v vc)"
  by (simp add: vc_ok_def distinct_update)

lemma copy_onto:
  "vc_ok vc \<Longrightarrow> vc_get (foldl (\<lambda>out (k, v). AList.update k v out) acc vc) k =
     (if k \<in> fst ` set vc then vc_get vc k else vc_get acc k)"
proof (induction vc arbitrary: acc)
  case (Cons x vc)
  obtain k' c where x: "x = (k', c)" by (cases x)
  show ?case using Cons by (auto simp: x vc_ok_def)
qed simp

lemma vc_get_copy [simp]: "vc_ok vc \<Longrightarrow> vc_get (vc_copy vc) k = vc_get vc k"
  by (auto simp: vc_copy_def copy_onto vc_get_fresh)

lemma vc_ok_copy [simp]: "vc_ok (vc_copy vc)"
proof -
  have "vc_ok acc \<Longrightarrow> vc_ok (foldl (\<lambda>out (k, v). AList.update k v out) acc vc)" for acc
    by (induction vc arbitrary: acc) (auto simp: vc_ok_update)
  then show ?thesis by (simp add: vc_copy_def vc_ok_def)
qed

lemma Increment_get: "vc_ok vc \<Longrightarrow> vc_get (Increment vc n) k = (if k = n then vc_get vc n + 1 else vc_get vc k)"
  by (simp add: Increment_def Let_def)

lemma Increment_ok: "vc_ok (Increment vc n)"
  by (simp add: Increment_def Let_def vc_ok_update)

lemma Merge_get:
  assumes "vc_ok vc" "vc_ok other"
  shows "vc_get (Merge vc other) k = max (vc_get vc k) (vc_get other k)"
proof -
  let ?step = "\<lambda>merged (nodeID, counter). if vc_get merged nodeID < counter then AList.update nodeID counter merged else merged"
  have "vc_ok other \<Longrightarrow> vc_get (foldl ?step acc other) k = max (vc_get acc k) (vc_get other k)" for acc
  proof (induction other arbitrary: acc)
    case (Cons x other)
    obtain k' c where x: "x = (k', c)" by (cases x)
    have "k' \<notin> fst ` set other" "vc_ok other" using Cons.prems by (simp_all add: x vc_ok_def)
    then show ?case using Cons.IH [of "?step acc x"] by (auto simp: x vc_get_fresh max_def word_gt_0)
  qed (simp add: max_def)
  from this [of "vc_copy vc"] assms show ?thesis by (simp add: Merge_def)
qed

lemma Merge_ok: "vc_ok (Merge vc other)"
proof -
  let ?step = "\<lambda>merged (nodeID, counter). if vc_get merged nodeID < counter then AList.update nodeID counter merged else merged"
  have "vc_ok acc \<Longrightarrow> vc_ok (foldl ?step acc other)" for acc
    by (induction other arbitrary: acc) (auto simp: vc_ok_update)
  then show ?thesis by (simp add: Merge_def)
qed

section \<open>What Compare decides\<close>

lemma set_insert_keys: "set (foldl (\<lambda>ks (k, _). List.insert k ks) acc vc) = set acc \<union> fst ` set vc"
  by (induction vc arbitrary: acc) auto

lemma set_all_keys: "set (all_keys vc other) = fst ` set vc \<union> fst ` set other"
  by (simp add: all_keys_def set_insert_keys)

lemma compare_flags:
  fixes f g :: "'k \<Rightarrow> 'c :: linorder"
  shows "foldl (\<lambda>(l, r) k. let a = f k; b = g k in if a < b then (True, r) else if b < a then (l, True) else (l, r)) (l, r) ks =
    (l \<or> (\<exists>k\<in>set ks. f k < g k), r \<or> (\<exists>k\<in>set ks. g k < f k))"
  by (induction ks arbitrary: l r) (auto simp: Let_def)

lemma keys_suffice:
  "(\<exists>k\<in>set (all_keys a b). vc_get a k < vc_get b k) \<longleftrightarrow> (\<exists>k. vc_get a k < vc_get b k)"
  "(\<exists>k\<in>set (all_keys a b). vc_get b k < vc_get a k) \<longleftrightarrow> (\<exists>k. vc_get b k < vc_get a k)"
proof -
  have "vc_get a k = vc_get b k" if "k \<notin> set (all_keys a b)" for k
    using that by (simp add: set_all_keys vc_get_fresh)
  then show "(\<exists>k\<in>set (all_keys a b). vc_get a k < vc_get b k) \<longleftrightarrow> (\<exists>k. vc_get a k < vc_get b k)"
    "(\<exists>k\<in>set (all_keys a b). vc_get b k < vc_get a k) \<longleftrightarrow> (\<exists>k. vc_get b k < vc_get a k)"
    by (metis order_less_irrefl)+
qed

lemma Compare_le:
  "Compare a b = (if vc_le a b then if vc_le b a then Equal else Before
                  else if vc_le b a then After else Concurrent)"
proof -
  have "vc_le a b \<longleftrightarrow> \<not> (\<exists>k. vc_get b k < vc_get a k)" "vc_le b a \<longleftrightarrow> \<not> (\<exists>k. vc_get a k < vc_get b k)"
    by (simp_all add: vc_le_def not_less)
  then show ?thesis
    unfolding Compare_def compare_flags keys_suffice by auto
qed

lemma vc_le_refl [simp]: "vc_le a a"
  by (simp add: vc_le_def)

lemma vc_le_trans: "vc_le a b \<Longrightarrow> vc_le b c \<Longrightarrow> vc_le a c"
  by (meson order_trans vc_le_def)

lemma vc_le_antisym: "vc_le a b \<Longrightarrow> vc_le b a \<Longrightarrow> vc_get a = vc_get b"
  by (auto simp: vc_le_def intro: order_antisym)

lemma Before_iff: "Compare a b = Before \<longleftrightarrow> vc_le a b \<and> \<not> vc_le b a"
  by (simp add: Compare_le)

section \<open>The contract conflict detection relies on\<close>

text \<open>Detection needs no more of the comparison than a strict order: irreflexive and transitive.\<close>

locale causality =
  fixes before :: "'v \<Rightarrow> 'v \<Rightarrow> bool"
  assumes before_irrefl: "\<not> before a a"
    and before_trans: "before a b \<Longrightarrow> before b c \<Longrightarrow> before a c"
begin

definition maximal :: "'v set \<Rightarrow> 'v set" where
  "maximal S = {v \<in> S. \<forall>w\<in>S. \<not> before v w}"

lemma below_maximal:
  assumes "finite S" "v \<in> S"
  shows "\<exists>h\<in>maximal S. h = v \<or> before v h"
  using assms
proof (induction "card {w \<in> S. before v w}" arbitrary: v rule: less_induct)
  case less
  show ?case
  proof (cases "v \<in> maximal S")
    case False
    then obtain w where w: "w \<in> S" "before v w" using less.prems by (auto simp: maximal_def)
    have "{u \<in> S. before w u} \<subset> {u \<in> S. before v u}"
      using w before_trans before_irrefl by blast
    then have "card {u \<in> S. before w u} < card {u \<in> S. before v u}"
      using less.prems(1) by (intro psubset_card_mono) auto
    from less.hyps [OF this less.prems(1) w(1)] w(2) show ?thesis using before_trans by blast
  qed auto
qed

lemma maximal_nonempty: "finite S \<Longrightarrow> S \<noteq> {} \<Longrightarrow> maximal S \<noteq> {}"
  using below_maximal by blast

end

definition version_before :: "version \<Rightarrow> version \<Rightarrow> bool" where
  "version_before a b \<longleftrightarrow> Compare (clock_of a) (clock_of b) = Before"

interpretation clocks: causality version_before
  by unfold_locales (auto simp: version_before_def Before_iff dest: vc_le_trans)

section \<open>What Detect returns\<close>

lemma dominated_iff: "i < length vs \<Longrightarrow> dominated vs i \<longleftrightarrow> (\<exists>w\<in>set vs. version_before (vs ! i) w)"
proof -
  have "j \<noteq> i" if "version_before (vs ! i) (vs ! j)" for j
    using that clocks.before_irrefl by blast
  then have "dominated vs i \<longleftrightarrow> (\<exists>j<length vs. version_before (vs ! i) (vs ! j))"
    unfolding dominated_def list_ex_iff version_before_def [symmetric] set_upt Bex_def by auto
  then show ?thesis by (metis in_set_conv_nth)
qed

lemma heads_filter: "heads_of vs = filter (\<lambda>v. \<not> (\<exists>w\<in>set vs. version_before v w)) vs"
proof -
  have "heads_of vs = map (\<lambda>i. vs ! i) (filter (\<lambda>i. \<not> dominated vs i) [0..<length vs])"
    by (simp add: heads_of_def foldl_filter_map_snoc)
  also have "filter (\<lambda>i. \<not> dominated vs i) [0..<length vs] =
      filter (\<lambda>i. \<not> (\<exists>w\<in>set vs. version_before (vs ! i) w)) [0..<length vs]"
    by (rule filter_cong) (simp_all add: dominated_iff)
  also have "map (\<lambda>i. vs ! i) \<dots> = filter (\<lambda>v. \<not> (\<exists>w\<in>set vs. version_before v w)) (map (\<lambda>i. vs ! i) [0..<length vs])"
    by (simp add: filter_map o_def)
  finally show ?thesis by (simp add: map_nth)
qed

lemma set_heads_of: "set (heads_of vs) = clocks.maximal (set vs)"
  by (auto simp: heads_filter clocks.maximal_def)

lemma lwwResolve_max:
  assumes "vs \<noteq> []"
  shows "lwwResolve vs \<in> set vs \<and> (\<forall>v\<in>set vs. vv_Timestamp (snd v) \<le> vv_Timestamp (snd (lwwResolve vs)))"
proof -
  let ?f = "foldl (\<lambda>best v. if vv_Timestamp (snd best) < vv_Timestamp (snd v) then v else best)"
  have "?f b xs \<in> insert b (set xs) \<and>
    (\<forall>v\<in>insert b (set xs). vv_Timestamp (snd v) \<le> vv_Timestamp (snd (?f b xs)))" for b and xs :: "version list"
  proof (induction xs arbitrary: b)
    case (Cons x xs)
    show ?case
      using Cons.IH [of "if vv_Timestamp (snd b) < vv_Timestamp (snd x) then x else b"] by (auto split: if_splits)
  qed simp
  from this [of "hd vs" "tl vs"] assms show ?thesis by (cases vs) (auto simp: lwwResolve_def)
qed

lemma heads_nonempty: "vs \<noteq> [] \<Longrightarrow> heads_of vs \<noteq> []"
  using clocks.maximal_nonempty [of "set vs"] set_heads_of [of vs] by (metis List.finite_set set_empty)

lemma heads_single: "heads_of [v] = [v]"
  by (simp add: heads_filter clocks.before_irrefl)

lemma lww_single: "lwwResolve [v] = v"
  by (simp add: lwwResolve_def)

text \<open>All branches of \<open>Detect\<close> in one: resolve the heads, report the heads behind other pointers.\<close>

lemma Detect_heads:
  assumes "vs \<noteq> []"
  shows "Detect vs = (Some (lwwResolve (heads_of vs)),
    filter (\<lambda>h. fst h \<noteq> fst (lwwResolve (heads_of vs))) (heads_of vs))"
proof (cases "length (heads_of vs) = 1")
  case True
  then obtain h where h: "heads_of vs = [h]" by (metis One_nat_def length_0_conv length_Suc_conv)
  show ?thesis
  proof (cases "\<exists>v. vs = [v]")
    case True
    then show ?thesis by (auto simp: Detect_def heads_single lww_single)
  next
    case False
    with assms h have "Detect vs = (Some h, [])" by (auto simp: Detect_def Let_def split: list.split)
    with h show ?thesis by (simp add: lww_single)
  qed
next
  case False
  then have "\<nexists>v. vs = [v]" by (auto simp: heads_single)
  with False assms show ?thesis
    by (auto simp: Detect_def Let_def foldl_filter_snoc split: list.split)
qed

section \<open>Properties\<close>

text \<open>
  C20. \<open>Compare\<close> decides the pointwise order of the counters, a missing counter being zero: the
  four answers are exactly equality, strictly below, strictly above and incomparable.
\<close>

theorem compare_causality:
  "(Compare a b = Equal \<longleftrightarrow> (\<forall>k. vc_get a k = vc_get b k)) \<and>
   (Compare a b = Before \<longleftrightarrow> (\<forall>k. vc_get a k \<le> vc_get b k) \<and> (\<exists>k. vc_get a k < vc_get b k)) \<and>
   (Compare a b = After \<longleftrightarrow> Compare b a = Before) \<and>
   (Compare a b = Concurrent \<longleftrightarrow> (\<exists>k. vc_get a k < vc_get b k) \<and> (\<exists>k. vc_get b k < vc_get a k))"
proof -
  have "vc_le a b \<longleftrightarrow> \<not> (\<exists>k. vc_get b k < vc_get a k)" "vc_le b a \<longleftrightarrow> \<not> (\<exists>k. vc_get a k < vc_get b k)"
    by (simp_all add: vc_le_def not_less)
  moreover have "vc_le a b \<and> vc_le b a \<longleftrightarrow> (\<forall>k. vc_get a k = vc_get b k)"
    by (auto simp: vc_le_def intro: order_antisym)
  ultimately show ?thesis by (simp add: Compare_le) (auto simp: vc_le_def)
qed

text \<open>
  C19. \<open>Merge\<close> is the least upper bound: the merged clock is not before either argument and
  precedes or equals every clock that dominates both.
\<close>

theorem merge_least_upper_bound:
  assumes "vc_ok a" "vc_ok b"
  shows "Compare a (Merge a b) \<in> {Before, Equal} \<and> Compare b (Merge a b) \<in> {Before, Equal} \<and>
    (\<forall>c. Compare a c \<in> {Before, Equal} \<and> Compare b c \<in> {Before, Equal} \<longrightarrow>
      Compare (Merge a b) c \<in> {Before, Equal})"
proof -
  have le: "Compare x y \<in> {Before, Equal} \<longleftrightarrow> vc_le x y" for x y by (simp add: Compare_le)
  show ?thesis unfolding le by (auto simp: vc_le_def Merge_get [OF assms])
qed

definition clock1 :: VectorClock where "clock1 = [(''n1'', 2), (''n2'', 1)]"

definition clock2 :: VectorClock where "clock2 = [(''n2'', 3), (''n3'', 1)]"

theorem merge_least_upper_bound_witness:
  "Compare clock1 (Merge clock1 clock2) \<in> {Before, Equal} \<and> Compare clock2 (Merge clock1 clock2) \<in> {Before, Equal}"
proof -
  have "vc_ok clock1" "vc_ok clock2" by (simp_all add: vc_ok_def clock1_def clock2_def)
  from merge_least_upper_bound [OF this] show ?thesis by simp
qed

text \<open>
  An event of a node moves its clock strictly forward, and only there; at the largest
  \<open>uint64\<close> the counter wraps to zero and the clock moves backwards.
\<close>

theorem increment_moves_forward:
  assumes "vc_ok vc"
  shows "Compare vc (Increment vc n) = (if vc_get vc n = - 1 then After else Before) \<and>
    (\<forall>k. k \<noteq> n \<longrightarrow> vc_get (Increment vc n) k = vc_get vc k)"
proof (cases "vc_get vc n = - 1")
  case True
  then have "vc_le (Increment vc n) vc" "\<not> vc_le vc (Increment vc n)"
    using assms by (auto simp: vc_le_def Increment_get intro!: exI [of _ n])
  with True assms show ?thesis by (simp add: Compare_le Increment_get)
next
  case False
  then have "vc_get vc n < vc_get vc n + 1"
    by (rule word_less_succ)
  then have "vc_le vc (Increment vc n)" "\<not> vc_le (Increment vc n) vc"
    using assms by (auto simp: vc_le_def Increment_get not_le intro!: exI [of _ n])
  with False assms show ?thesis by (simp add: Compare_le Increment_get)
qed

theorem increment_moves_forward_witness:
  "Compare clock1 (Increment clock1 ''n3'') = Before \<and> Compare [(''n1'', - 1)] (Increment [(''n1'', - 1)] ''n1'') = After"
  using increment_moves_forward [of clock1 "''n3''"] increment_moves_forward [of "[(''n1'', - 1)]" "''n1''"]
  by (simp add: vc_ok_def clock1_def)

text \<open>
  C18. \<open>Detect\<close> on any non-empty list of versions: the winner is a version no other version
  dominates, with the largest timestamp among those; the siblings are the undominated versions
  behind other pointers than the winner's, which are the versions concurrent with it that the
  comment of \<open>Detect\<close> promises and, beyond that comment, those whose clock equals the winner's;
  and every version is, or causally precedes, one that is reported.
\<close>

theorem detect_winner:
  assumes "vs \<noteq> []"
  shows "\<exists>w siblings. Detect vs = (Some w, siblings) \<and> w \<in> set vs \<and>
    (\<forall>v\<in>set vs. \<not> HappensBefore (clock_of w) (clock_of v)) \<and>
    (\<forall>v\<in>set vs. (\<forall>u\<in>set vs. \<not> HappensBefore (clock_of v) (clock_of u)) \<longrightarrow>
       vv_Timestamp (snd v) \<le> vv_Timestamp (snd w)) \<and>
    set siblings = {v \<in> set vs. fst v \<noteq> fst w \<and> (\<forall>u\<in>set vs. \<not> HappensBefore (clock_of v) (clock_of u))} \<and>
    (\<forall>v\<in>set vs. \<exists>h\<in>set vs. (h = v \<or> HappensBefore (clock_of v) (clock_of h)) \<and> (fst h = fst w \<or> h \<in> set siblings))"
proof -
  have hb: "HappensBefore (clock_of a) (clock_of b) = version_before a b" for a b
    by (simp add: HappensBefore_def version_before_def)
  let ?w = "lwwResolve (heads_of vs)" and ?s = "filter (\<lambda>h. fst h \<noteq> fst (lwwResolve (heads_of vs))) (heads_of vs)"
  have w: "?w \<in> set (heads_of vs)" "\<forall>v\<in>set (heads_of vs). vv_Timestamp (snd v) \<le> vv_Timestamp (snd ?w)"
    using lwwResolve_max [OF heads_nonempty [OF assms]] by simp_all
  have h: "v \<in> set (heads_of vs) \<longleftrightarrow> v \<in> set vs \<and> (\<forall>u\<in>set vs. \<not> version_before v u)" for v
    by (auto simp: set_heads_of clocks.maximal_def)
  have s: "set ?s = {v \<in> set vs. fst v \<noteq> fst ?w \<and> (\<forall>u\<in>set vs. \<not> version_before v u)}"
    by (auto simp: h)
  have cover: "\<exists>h\<in>set vs. (h = v \<or> version_before v h) \<and> (fst h = fst ?w \<or> h \<in> set ?s)" if v: "v \<in> set vs" for v
  proof -
    obtain u where u: "u \<in> set (heads_of vs)" "u = v \<or> version_before v u"
      using clocks.below_maximal [OF _ v] by (auto simp: set_heads_of)
    then have "u \<in> set vs" "fst u = fst ?w \<or> u \<in> set ?s" by (simp_all add: h)
    with u(2) show ?thesis by blast
  qed
  have win: "?w \<in> set vs" "\<forall>v\<in>set vs. \<not> version_before ?w v" using w(1) by (simp_all add: h)
  have top: "\<forall>v\<in>set vs. (\<forall>u\<in>set vs. \<not> version_before v u) \<longrightarrow> vv_Timestamp (snd v) \<le> vv_Timestamp (snd ?w)"
    using w(2) h by blast
  show ?thesis
    unfolding hb using Detect_heads [OF assms] win top s cover by (intro exI conjI ballI) (assumption | blast)+
qed

text \<open>Two concurrent versions and one that both dominate.\<close>

definition ver0 :: version where
  "ver0 = (0, \<lparr>vv_Data = ''old'', vv_VectorClock = [(''n2'', 1)], vv_Timestamp = 9, vv_NodeID = ''n2''\<rparr>)"

definition ver1 :: version where
  "ver1 = (1, \<lparr>vv_Data = ''x'', vv_VectorClock = clock1, vv_Timestamp = 5, vv_NodeID = ''n1''\<rparr>)"

definition ver2 :: version where
  "ver2 = (2, \<lparr>vv_Data = ''y'', vv_VectorClock = clock2, vv_Timestamp = 7, vv_NodeID = ''n2''\<rparr>)"

theorem detect_winner_witness:
  "Detect [ver0, ver1, ver2] = (Some ver2, [ver1]) \<and> \<not> HappensBefore (clock_of ver2) (clock_of ver1)"
proof -
  have d: "Detect [ver0, ver1, ver2] = (Some ver2, [ver1])" by code_simp
  from detect_winner [of "[ver0, ver1, ver2]"] d show ?thesis by auto
qed

text \<open>
  Versions with equal clocks are no conflict, yet \<open>Detect\<close> reports them as siblings: two
  replicas that return the same version through two pointers give a non-empty list of siblings,
  which the comment of \<open>Detect\<close> says means a conflict.
\<close>

theorem detect_equal_versions:
  assumes "Compare (clock_of a) (clock_of b) = Equal" "fst a \<noteq> fst b"
    and "vv_Timestamp (snd b) \<le> vv_Timestamp (snd a)"
  shows "Detect [a, b] = (Some a, [b])"
proof -
  have "\<not> version_before a b" "\<not> version_before b a"
    using assms(1) by (auto simp: version_before_def Compare_le split: if_splits)
  then have "heads_of [a, b] = [a, b]" by (simp add: heads_filter clocks.before_irrefl)
  then show ?thesis using assms(2,3) by (auto simp: Detect_heads lwwResolve_def)
qed

theorem detect_equal_versions_witness: "Detect [(0, snd ver1), (1, snd ver1)] = (Some (0, snd ver1), [(1, snd ver1)])"
  by (rule detect_equal_versions) (simp_all add: Compare_le clock_of_def)

end
