(* ===== verification/KV_Health.thy ===== *)
theory KV_Health
  imports KV_Prelude
begin

text \<open>
  \<open>cluster/health.go\<close>: the failure detector. A node is healthy, suspected after three missed
  intervals and failed after ten; a heartbeat makes it healthy again. The calls of \<open>onFail\<close>
  are collected in order; the clock is an argument, read once per node in a tick.
\<close>

section \<open>The checker\<close>

datatype NodeStatus = StatusHealthy | StatusSuspected | StatusFailed

record nodeState =
  h_status :: NodeStatus
  h_lastSeen :: int
  h_missedBeats :: int

record HealthChecker =
  hc_states :: "(string \<times> nodeState) list"
  hc_suspectThreshold :: int
  hc_failThreshold :: int
  hc_interval :: int
  hc_hasOnFail :: bool
  hc_failCalls :: "string list"

definition NewHealthChecker :: "int \<Rightarrow> bool \<Rightarrow> HealthChecker" where
  "NewHealthChecker interval hasOnFail =
     \<lparr>hc_states = [], hc_suspectThreshold = 3, hc_failThreshold = 10, hc_interval = interval,
      hc_hasOnFail = hasOnFail, hc_failCalls = []\<rparr>"

definition RecordHeartbeat :: "int \<Rightarrow> string \<Rightarrow> HealthChecker \<Rightarrow> HealthChecker" where
  "RecordHeartbeat now nodeID h =
     (let s = (case map_of (hc_states h) nodeID of
                 Some s \<Rightarrow> s
               | None \<Rightarrow> \<lparr>h_status = StatusHealthy, h_lastSeen = 0, h_missedBeats = 0\<rparr>);
          s1 = s\<lparr>h_lastSeen := now, h_missedBeats := 0\<rparr>;
          s2 = (if h_status s1 \<noteq> StatusHealthy then s1\<lparr>h_status := StatusHealthy\<rparr> else s1)
      in h\<lparr>hc_states := AList.update nodeID s2 (hc_states h)\<rparr>)"

definition Health_Status :: "HealthChecker \<Rightarrow> string \<Rightarrow> NodeStatus" where
  "Health_Status h nodeID =
     (case map_of (hc_states h) nodeID of Some s \<Rightarrow> h_status s | None \<Rightarrow> StatusHealthy)"

definition IsHealthy :: "HealthChecker \<Rightarrow> string \<Rightarrow> bool" where
  "IsHealthy h nodeID \<longleftrightarrow> Health_Status h nodeID = StatusHealthy"

text \<open>The body of the loop in \<open>tick\<close> for one node: its new state, and whether \<open>onFail\<close> is called.\<close>

definition tick_node :: "HealthChecker \<Rightarrow> int \<Rightarrow> nodeState \<Rightarrow> nodeState \<times> bool" where
  "tick_node h now s =
     (if now - h_lastSeen s < hc_interval h then (s, False)
      else let s1 = s\<lparr>h_missedBeats := h_missedBeats s + 1\<rparr>
           in if hc_failThreshold h \<le> h_missedBeats s1 \<and> h_status s1 \<noteq> StatusFailed
              then (s1\<lparr>h_status := StatusFailed\<rparr>, hc_hasOnFail h)
              else if hc_suspectThreshold h \<le> h_missedBeats s1 \<and> h_status s1 = StatusHealthy
              then (s1\<lparr>h_status := StatusSuspected\<rparr>, False)
              else (s1, False))"

definition tick :: "(string \<Rightarrow> int) \<Rightarrow> HealthChecker \<Rightarrow> HealthChecker" where
  "tick now h =
     h\<lparr>hc_states := map (\<lambda>(nid, s). (nid, fst (tick_node h (now nid) s))) (hc_states h),
       hc_failCalls := hc_failCalls h @
         map fst (filter (\<lambda>(nid, s). snd (tick_node h (now nid) s)) (hc_states h))\<rparr>"

section \<open>States the checker reaches\<close>

inductive health_reach :: "HealthChecker \<Rightarrow> bool" where
  health_new: "health_reach (NewHealthChecker interval f)"
| health_beat: "health_reach h \<Longrightarrow> health_reach (RecordHeartbeat now nid h)"
| health_tick: "health_reach h \<Longrightarrow> health_reach (tick now h)"

definition status_of :: "int \<Rightarrow> NodeStatus" where
  "status_of missed = (if missed < 3 then StatusHealthy else if missed < 10 then StatusSuspected else StatusFailed)"

definition health_ok :: "HealthChecker \<Rightarrow> bool" where
  "health_ok h \<longleftrightarrow> hc_suspectThreshold h = 3 \<and> hc_failThreshold h = 10 \<and> distinct (map fst (hc_states h)) \<and>
     (\<forall>nid s. map_of (hc_states h) nid = Some s \<longrightarrow> 0 \<le> h_missedBeats s \<and> h_status s = status_of (h_missedBeats s))"

lemma health_ok_state:
  "health_ok h \<Longrightarrow> map_of (hc_states h) nid = Some s \<Longrightarrow> 0 \<le> h_missedBeats s \<and> h_status s = status_of (h_missedBeats s)"
  unfolding health_ok_def by blast

lemma map_of_tick: "map_of (hc_states (tick now h)) nid = map_option (\<lambda>s. fst (tick_node h (now nid) s)) (map_of (hc_states h) nid)"
proof -
  have "map_of (map (\<lambda>(nid, s). (nid, f nid s)) xs) nid = map_option (f nid) (map_of xs nid)"
    for f :: "string \<Rightarrow> nodeState \<Rightarrow> nodeState" and xs
    by (induction xs) auto
  then show ?thesis by (simp add: tick_def)
qed

lemma tick_node_missed:
  assumes "health_ok h" "0 \<le> h_missedBeats s" "h_status s = status_of (h_missedBeats s)"
  shows "fst (tick_node h now s) = (if now - h_lastSeen s < hc_interval h then s
      else s\<lparr>h_missedBeats := h_missedBeats s + 1, h_status := status_of (h_missedBeats s + 1)\<rparr>)"
    and "snd (tick_node h now s) \<longleftrightarrow> hc_hasOnFail h \<and> \<not> now - h_lastSeen s < hc_interval h \<and> h_missedBeats s = 9"
  using assms by (auto simp: tick_node_def Let_def health_ok_def status_of_def)

lemma health_ok_beat: "health_ok h \<Longrightarrow> health_ok (RecordHeartbeat now nid h)"
  by (auto simp: health_ok_def RecordHeartbeat_def Let_def AList.update_conv' distinct_update status_of_def
      split: if_splits option.splits)

lemma health_ok_tick:
  assumes h: "health_ok h"
  shows "health_ok (tick now h)"
proof -
  have "0 \<le> h_missedBeats s \<and> h_status s = status_of (h_missedBeats s)"
    if st: "map_of (hc_states (tick now h)) nid = Some s" for nid s
  proof -
    obtain s0 where s0: "map_of (hc_states h) nid = Some s0" "s = fst (tick_node h (now nid) s0)"
      using st unfolding map_of_tick map_option_eq_Some by blast
    show ?thesis
      using health_ok_state [OF h s0(1)] tick_node_missed(1) [OF h, of s0 "now nid"] s0(2) by auto
  qed
  moreover have "map fst (hc_states (tick now h)) = map fst (hc_states h)"
    by (simp add: tick_def split_beta)
  moreover have "hc_suspectThreshold (tick now h) = 3" "hc_failThreshold (tick now h) = 10"
    using h by (simp_all add: tick_def health_ok_def)
  ultimately show ?thesis using h by (simp add: health_ok_def)
qed

lemma health_reach_ok: "health_reach h \<Longrightarrow> health_ok h"
proof (induction rule: health_reach.induct)
  case (health_new interval f)
  show ?case by (simp add: health_ok_def NewHealthChecker_def)
qed (auto simp: health_ok_beat health_ok_tick)

text \<open>A run of ticks in which the node is silent.\<close>

fun silent_ticks :: "string \<Rightarrow> (string \<Rightarrow> int) list \<Rightarrow> HealthChecker \<Rightarrow> HealthChecker" where
  "silent_ticks nid [] h = h"
| "silent_ticks nid (now # nows) h = silent_ticks nid nows (tick now h)"

lemma fail_calls_tick:
  assumes h: "health_ok h" and s: "map_of (hc_states h) nid = Some s"
  shows "count_list (hc_failCalls (tick now h)) nid =
    count_list (hc_failCalls h) nid + (if snd (tick_node h (now nid) s) then 1 else 0)"
proof -
  let ?P = "\<lambda>(nid, s). snd (tick_node h (now nid) s)"
  have "distinct (map fst xs) \<Longrightarrow> map_of xs nid = Some s \<Longrightarrow>
      count_list (map fst (filter ?P xs)) nid = (if ?P (nid, s) then 1 else 0)" for xs
  proof (induction xs)
    case (Cons x xs)
    obtain n t where x: "x = (n, t)" by (cases x)
    show ?case
    proof (cases "n = nid")
      case True
      then have "nid \<notin> set (map fst (filter ?P xs))" using Cons.prems(1) by (auto simp: x)
      then have "count_list (map fst (filter ?P xs)) nid = 0" by (simp add: count_list_0_iff)
      with True Cons.prems(2) show ?thesis by (simp add: x)
    next
      case False
      with Cons show ?thesis by (simp add: x)
    qed
  qed simp
  from this [of "hc_states h"] h s show ?thesis by (simp add: tick_def health_ok_def)
qed

lemma silent_run:
  assumes "health_ok h" "map_of (hc_states h) nid = Some s"
    and "\<forall>now\<in>set nows. hc_interval h \<le> now nid - h_lastSeen s"
  shows "\<exists>s'. map_of (hc_states (silent_ticks nid nows h)) nid = Some s' \<and>
    h_missedBeats s' = h_missedBeats s + int (length nows) \<and> health_ok (silent_ticks nid nows h) \<and>
    int (count_list (hc_failCalls (silent_ticks nid nows h)) nid) = int (count_list (hc_failCalls h) nid) +
      (if hc_hasOnFail h \<and> h_missedBeats s < 10 \<and> 10 \<le> h_missedBeats s + int (length nows) then 1 else 0)"
  using assms
proof (induction nows arbitrary: h s)
  case (Cons now nows)
  let ?h = "tick now h" and ?s = "s\<lparr>h_missedBeats := h_missedBeats s + 1, h_status := status_of (h_missedBeats s + 1)\<rparr>"
  have st: "0 \<le> h_missedBeats s" "h_status s = status_of (h_missedBeats s)"
    using health_ok_state [OF Cons.prems(1,2)] by simp_all
  have far: "\<not> now nid - h_lastSeen s < hc_interval h" using Cons.prems(3) by simp
  have s: "map_of (hc_states ?h) nid = Some ?s"
    using Cons.prems(2) tick_node_missed(1) [OF Cons.prems(1) st, of "now nid"] far by (simp add: map_of_tick)
  have c: "int (count_list (hc_failCalls ?h) nid) = int (count_list (hc_failCalls h) nid) +
      (if hc_hasOnFail h \<and> h_missedBeats s = 9 then 1 else 0)"
    using fail_calls_tick [OF Cons.prems(1,2), of now] tick_node_missed(2) [OF Cons.prems(1) st, of "now nid"] far by auto
  have sel: "hc_interval ?h = hc_interval h" "hc_hasOnFail ?h = hc_hasOnFail h" by (simp_all add: tick_def)
  have "\<forall>now\<in>set nows. hc_interval ?h \<le> now nid - h_lastSeen ?s" using Cons.prems(3) by (simp add: sel)
  from Cons.IH [OF health_ok_tick [OF Cons.prems(1)] s this] c show ?case
    by (auto simp: sel)
qed simp

section \<open>Properties\<close>

text \<open>
  In every reachable state the status of a node is a function of its missed intervals: healthy
  below three, suspected from three to nine, failed from ten on.
\<close>

theorem health_status_exact:
  assumes "health_reach h" "map_of (hc_states h) nid = Some s"
  shows "0 \<le> h_missedBeats s \<and>
    Health_Status h nid = (if h_missedBeats s < 3 then StatusHealthy
      else if h_missedBeats s < 10 then StatusSuspected else StatusFailed)"
  using health_ok_state [OF health_reach_ok [OF assms(1)] assms(2)] assms(2)
  by (simp add: Health_Status_def status_of_def)

definition silent3 :: HealthChecker where
  "silent3 = silent_ticks ''n1'' [\<lambda>_. 10, \<lambda>_. 20, \<lambda>_. 30] (RecordHeartbeat 0 ''n1'' (NewHealthChecker 10 True))"

theorem health_status_exact_witness: "Health_Status silent3 ''n1'' = StatusSuspected \<and> \<not> IsHealthy silent3 ''n1''"
proof -
  have r: "health_reach silent3" unfolding silent3_def silent_ticks.simps by (intro health_reach.intros)
  have "map_of (hc_states silent3) ''n1'' = Some \<lparr>h_status = StatusSuspected, h_lastSeen = 0, h_missedBeats = 3\<rparr>"
    by code_simp
  from health_status_exact [OF r this] show ?thesis by (simp add: IsHealthy_def)
qed

text \<open>
  C21. Failure detection: a node heard of once and then silent for \<open>n\<close> ticks is declared failed after
  exactly ten of them, and \<open>onFail\<close> is called for it once, however long the silence lasts; a
  heartbeat makes it healthy again.
\<close>

theorem silent_node_fails_once:
  assumes "health_reach h0" "h = RecordHeartbeat t nid h0"
    and "\<forall>now\<in>set nows. hc_interval h \<le> now nid - t"
  shows "Health_Status (silent_ticks nid nows h) nid =
      (if length nows < 3 then StatusHealthy else if length nows < 10 then StatusSuspected else StatusFailed) \<and>
    count_list (hc_failCalls (silent_ticks nid nows h)) nid =
      count_list (hc_failCalls h0) nid + (if hc_hasOnFail h0 \<and> 10 \<le> length nows then 1 else 0) \<and>
    Health_Status (RecordHeartbeat t' nid (silent_ticks nid nows h)) nid = StatusHealthy"
proof -
  have ok: "health_ok h" unfolding assms(2) by (rule health_ok_beat [OF health_reach_ok [OF assms(1)]])
  obtain s where s: "map_of (hc_states h) nid = Some s" "h_missedBeats s = 0" "h_lastSeen s = t"
    by (auto simp: assms(2) RecordHeartbeat_def Let_def AList.update_conv' split: option.split)
  have sel: "hc_failCalls h = hc_failCalls h0" "hc_hasOnFail h = hc_hasOnFail h0"
    by (simp_all add: assms(2) RecordHeartbeat_def Let_def)
  from silent_run [OF ok s(1), of nows] assms(3) s(3)
  obtain s' where s': "map_of (hc_states (silent_ticks nid nows h)) nid = Some s'"
      "h_missedBeats s' = int (length nows)" "health_ok (silent_ticks nid nows h)"
      "int (count_list (hc_failCalls (silent_ticks nid nows h)) nid) = int (count_list (hc_failCalls h) nid) +
        (if hc_hasOnFail h \<and> 10 \<le> int (length nows) then 1 else 0)"
    using s(2) by auto
  have "Health_Status (silent_ticks nid nows h) nid = status_of (int (length nows))"
    using health_ok_state [OF s'(3,1)] s'(1,2) by (simp add: Health_Status_def)
  moreover have "Health_Status (RecordHeartbeat t' nid (silent_ticks nid nows h)) nid = StatusHealthy"
    by (simp add: Health_Status_def RecordHeartbeat_def Let_def AList.update_conv')
  ultimately show ?thesis using s'(4) sel by (auto simp: status_of_def split: if_splits)
qed

theorem silent_node_fails_once_witness:
  "count_list (hc_failCalls (silent_ticks ''n1'' (replicate 12 (\<lambda>_. 500)) (RecordHeartbeat 0 ''n1'' (NewHealthChecker 10 True)))) ''n1'' = 1"
  using silent_node_fails_once [OF health_new [of 10 True] refl, where nows = "replicate 12 (\<lambda>_. 500)" and nid = "''n1''" and t = 0]
  by (simp add: NewHealthChecker_def RecordHeartbeat_def Let_def)

end
