(* ===== verification/Spec2Isabelle.thy ===== *)
theory Spec2Isabelle
  imports KV_Node KV_Cli KV_Versioning KV_Health
begin

text \<open>
  A verification development of DistributedKV, a replicated key-value store in Go
  (\<open>src/backend\<close>).

  \<^bold>\<open>The program.\<close> A node keeps its data in a storage engine (\<open>storage/\<close>): a sorted table in memory,
  a write-ahead log that every write is appended to first, and snapshots of the table; opening
  restores the newest snapshot and replays the log behind the position it records. Nodes find each
  other by gossip (\<open>cluster/membership.go\<close>), whose notifications maintain a consistent-hash ring
  (\<open>hash/ring.go\<close>). A coordinator (\<open>replication/coordinator.go\<close>) sends each request to the replicas
  of its key, the local engine and the public HTTP API of the other nodes
  (\<open>replication/rpc_client.go\<close>), counts acknowledgements against a consistency level, repairs stale
  replicas after reads and stores hints for replicas that failed (\<open>replication/hints.go\<close>). Anti-entropy
  (\<open>sync/\<close>) compares Merkle trees with the peers. Clients talk to the HTTP handlers
  (\<open>api/http/\<close>), which track sessions (\<open>consistency/\<close>), to gRPC handlers on the local engine
  (\<open>api/grpc/\<close>), or use the command line client (\<open>cmd/cli\<close>). \<open>cmd/server\<close> puts the parts together.

  \<^bold>\<open>Theories and sources.\<close> State is a record, an operation a function from state to result and state,
  errors and panics are values, what the operating system, the network, clocks and random numbers
  answer are arguments.
  \<^item> \<open>KV_Prelude\<close>: bytes, keys, big-endian and hexadecimal encodings, number formatting, shared lemmas.
  \<^item> \<open>KV_Memtable\<close> (\<open>memtable.go\<close>): the table over a B-tree given by its operations. The locale \<open>btree\<close> is
    the documented contract of the B-tree, \<open>entry_tree\<close> the table's use of it, \<open>entry_store\<close> the contract
    the table offers, a refinement of a map from keys to entries. Size and count are 64-bit words.
  \<^item> \<open>KV_Wal\<close> (\<open>wal.go\<close>), \<open>KV_Snapshot\<close> (\<open>snapshot.go\<close>), \<open>KV_Config\<close> (\<open>config.go\<close>), \<open>KV_Engine\<close> (\<open>engine.go\<close>):
    record format and replay, snapshot files and retention, defaults, the engine. \<open>KV_Engine\<close> also
    defines the runs \<open>engine_step\<close> and their invariant \<open>durable\<close>: the directory says what the table holds.
  \<^item> \<open>KV_Storage\<close>, \<open>KV_StorageOps\<close>: the properties of the storage stack: recovery after crashes, torn and
    lost writes, reads after writes, failures, scans, accounting, round trip of the log, retention.
  \<^item> \<open>KV_Versioning\<close> (\<open>vector_clock.go\<close>, \<open>conflict.go\<close>): clocks with 64-bit counters, conflict detection;
    causality is the pointwise order, merging its least upper bound.
  \<^item> \<open>KV_Ring\<close> (\<open>ring.go\<close>): the ring for an arbitrary digest; its invariant, lookup, successors and their
    termination, minimal movement of keys.
  \<^item> \<open>KV_Health\<close> (\<open>health.go\<close>), \<open>KV_Membership\<close> (\<open>membership.go\<close>), \<open>KV_Session\<close> (\<open>session.go\<close>,
    \<open>guarantees.go\<close>), \<open>KV_Merkle\<close> (\<open>merkle.go\<close>): failure detector, membership, sessions, Merkle trees.
  \<^item> \<open>KV_Json\<close>, \<open>KV_Rpc\<close> (\<open>rpc_client.go\<close>), \<open>KV_Hints\<close> (\<open>hints.go\<close>), \<open>KV_Coordinator\<close> (\<open>coordinator.go\<close>): JSON
    values and decoding into structs as \<open>encoding/json\<close> does it, invalid UTF-8 included; the replica
    client; hinted handoff; the coordinator.
  \<^item> \<open>KV_Quorum\<close>, \<open>KV_Repair\<close>: properties of the coordinator. The locale \<open>quorum_pair\<close> is the abstract reason
    reads see writes: sets of replicas that must meet.
  \<^item> \<open>KV_Handlers\<close> (\<open>handlers.go\<close>, \<open>middleware.go\<close>), \<open>KV_Rest\<close>: the REST API and its properties.
  \<^item> \<open>KV_Cluster\<close>: nodes that call each other through that API. \<open>KV_Sync\<close> (\<open>sync.go\<close>): anti-entropy.
  \<^item> \<open>KV_Server\<close> (\<open>cmd/server/main.go\<close>), \<open>KV_Grpc\<close> (\<open>api/grpc/handlers.go\<close>), \<open>KV_Cli\<close> (\<open>cmd/cli/main.go\<close>), and
    \<open>KV_Node\<close>, the node as a state machine with the invariant of everything it does.

  \<^bold>\<open>What is shown.\<close> Most properties say that the code does what it means to do. Some state a defect
  exactly, where the code and a comment or its purpose part: acknowledged writes lost by rotation
  and by racing snapshots, a log that cannot be opened after one kind of torn write, quorums that are
  never reached because replica calls nest, HTTP calls to gRPC addresses, rounds of anti-entropy that
  panic, deletes undone by read repair, hints dropped by a concurrent delivery, equal Merkle roots
  for different contents. Their texts say so.

  \<^bold>\<open>Concurrency.\<close> Operations that hold a lock are atomic. Where an operation releases its lock or reads in
  two steps (\<open>takeSnapshot\<close>, \<open>Deliver\<close>), the parts are definitions of their own that others may run
  between. The coordinator's goroutines run one after the other in an arbitrary order.

  \<^bold>\<open>Loops and bounds.\<close> Loops are structural recursion or recursion with a measure (replay: the bytes
  left), except \<open>successors_loop\<close> and \<open>diffSubtree\<close>, which may not return and are partial functions with
  values in an option; their properties prove when they return. The nested network of \<open>KV_Cluster\<close> is
  indexed by its depth, and its property holds at every depth. Bounds in hypotheses are those of the
  formats: keys and values below 4 GiB in the log, \<open>int64\<close> times, creation times of at most twenty
  digits.

  \<^bold>\<open>Not modelled.\<close> The B-tree, memberlist, the digests, \<open>sort.Slice\<close>, \<open>net/http\<close> and the router are
  parameters or left out; \<open>gob\<close> is taken to decode what it encoded. Left out are logging, Prometheus,
  loading of the configuration by viper, listeners and interceptors of the servers, the frontend and
  the deployment files.
\<close>

end
